theory Spec2Isabelle
  imports Complex_Main "HOL-Library.Sublist"
begin

section \<open>Evaluation metrics of madewithml/evaluate.py\<close>

text \<open>
  The module computes three reports from a truth array and a prediction array of class
  indices: overall metrics, per-class metrics and per-slice metrics. All three delegate the
  arithmetic to \<^verbatim>\<open>sklearn.metrics.precision_recall_fscore_support\<close>. Label arrays
  are lists of integers. The scores kept in a record are exact rationals: the exact value
  the floating-point computation approximates. Where the code compares scores (the sort of
  the per-class report) the model compares the float64 values that the code stores.
  Python exceptions are values of the type \<open>error\<close>; a computation returns
  \<open>error + 'a\<close> with \<open>Inl\<close> for the raised exception.
\<close>

subsection \<open>Data model\<close>

datatype error = ValueError | IndexError

text \<open>
  Python numbers of the report: \<^verbatim>\<open>np.float64(...)\<close> and the library's scores are
  floats, \<^verbatim>\<open>len(...)\<close> is a plain integer.
\<close>

datatype number = PyFloat rat | PyInt int

text \<open>The dictionary with the keys "precision", "recall", "f1" and "num_samples".\<close>

record metric_record =
  precision :: rat
  recall :: rat
  f1 :: rat
  num_samples :: number

text \<open>A row of the data frame handed to the slicing functions: \<^verbatim>\<open>x.text\<close>, \<^verbatim>\<open>x.tag\<close>.\<close>

record example =
  ex_text :: string
  ex_tag :: string

definition bind_err :: "error + 'a \<Rightarrow> ('a \<Rightarrow> error + 'b) \<Rightarrow> error + 'b" where
  "bind_err m k = (case m of Inl e \<Rightarrow> Inl e | Inr v \<Rightarrow> k v)"

text \<open>
  Assignment \<^verbatim>\<open>d[k] = v\<close> on an insertion-ordered Python dict, kept as an association
  list: an existing key keeps its position, a new key goes to the end.
\<close>

fun dict_set :: "('k \<times> 'v) list \<Rightarrow> 'k \<Rightarrow> 'v \<Rightarrow> ('k \<times> 'v) list" where
  "dict_set [] k v = [(k, v)]"
| "dict_set ((k', v') # d) k v = (if k' = k then (k, v) # d else (k', v') # dict_set d k v)"

text \<open>Reading position \<open>i\<close> of a numpy array; out of range raises IndexError.\<close>

definition np_index :: "'a list \<Rightarrow> nat \<Rightarrow> error + 'a" where
  "np_index xs i = (if i < length xs then Inr (xs ! i) else Inl IndexError)"

subsection \<open>The library call precision\_recall\_fscore\_support\<close>

text \<open>
  The source passes \<^verbatim>\<open>y_true\<close>, \<^verbatim>\<open>y_pred\<close> and \<^verbatim>\<open>average\<close> only, so
  \<^verbatim>\<open>labels=None\<close>, \<^verbatim>\<open>beta=1.0\<close>, \<^verbatim>\<open>sample_weight=None\<close> and
  \<^verbatim>\<open>zero_division="warn"\<close>. The model follows scikit-learn's implementation
  (release 1.2) for one-dimensional integer arrays:
  \<^item> \<^verbatim>\<open>check_consistent_length\<close> raises ValueError when the lengths differ;
  \<^item> the labels are the sorted distinct values occurring in \<^verbatim>\<open>y_true\<close> or \<^verbatim>\<open>y_pred\<close>
    (\<^verbatim>\<open>unique_labels\<close>); a class that occurs in neither array has no entry;
  \<^item> \<^verbatim>\<open>tp_sum\<close>, \<^verbatim>\<open>pred_sum\<close>, \<^verbatim>\<open>true_sum\<close> count, per label, the positions
    where both arrays hold the label, where the prediction holds it, where the truth holds it
    (\<open>pred_sum_arr\<close> below, as \<open>pred_sum\<close> is a constant of HOL);
  \<^item> \<^verbatim>\<open>_prf_divide\<close> divides elementwise and yields 0 where the denominator is 0;
  \<^item> \<^verbatim>\<open>f_score = (1 + beta2) * precision * recall / denom\<close> with \<^verbatim>\<open>denom\<close> set to
    1 where it is 0;
  \<^item> \<^verbatim>\<open>average="micro"\<close> replaces the three count arrays by their sums before dividing;
    \<^verbatim>\<open>average="weighted"\<close> averages the per-label scores with the weights
    \<^verbatim>\<open>true_sum\<close>, and returns zeros when the weights sum to zero;
    \<^verbatim>\<open>average=None\<close> returns the per-label arrays and \<^verbatim>\<open>true_sum\<close> as support.
\<close>

definition unique_labels :: "int list \<Rightarrow> int list \<Rightarrow> int list" where
  "unique_labels y_true y_pred = sort (remdups (y_true @ y_pred))"

definition bincount :: "int list \<Rightarrow> int list \<Rightarrow> nat list" where
  "bincount labels ys = map (count_list ys) labels"

definition tp_bins :: "int list \<Rightarrow> int list \<Rightarrow> int list" where
  "tp_bins y_true y_pred = map fst (filter (\<lambda>(t, p). t = p) (zip y_true y_pred))"

definition tp_sum :: "int list \<Rightarrow> int list \<Rightarrow> nat list" where
  "tp_sum y_true y_pred = bincount (unique_labels y_true y_pred) (tp_bins y_true y_pred)"

definition pred_sum_arr :: "int list \<Rightarrow> int list \<Rightarrow> nat list" where
  "pred_sum_arr y_true y_pred = bincount (unique_labels y_true y_pred) y_pred"

definition true_sum :: "int list \<Rightarrow> int list \<Rightarrow> nat list" where
  "true_sum y_true y_pred = bincount (unique_labels y_true y_pred) y_true"

definition prf_divide :: "nat list \<Rightarrow> nat list \<Rightarrow> rat list" where
  "prf_divide numerator denominator =
     map (\<lambda>(n, d). if d = 0 then 0 else of_nat n / of_nat d) (zip numerator denominator)"

definition f_score :: "rat list \<Rightarrow> rat list \<Rightarrow> rat list" where
  "f_score ps rs =
     map (\<lambda>(p, r). (1 + 1) * p * r / (if p + r = 0 then 1 else p + r)) (zip ps rs)"

text \<open>\<^verbatim>\<open>np.average(a, weights=w)\<close>; the caller guards against weights that sum to zero.\<close>

definition np_average :: "rat list \<Rightarrow> nat list \<Rightarrow> rat" where
  "np_average a w = sum_list (map (\<lambda>(x, n). x * of_nat n) (zip a w)) / of_nat (sum_list w)"

text \<open>\<^verbatim>\<open>np.average(a, weights=None)\<close>: the mean.\<close>

definition np_mean :: "rat list \<Rightarrow> rat" where
  "np_mean a = sum_list a / of_nat (length a)"

datatype average = Micro | Weighted

text \<open>The call with \<^verbatim>\<open>average=None\<close>: four arrays, one entry per label.\<close>

definition precision_recall_fscore_support_None ::
  "int list \<Rightarrow> int list \<Rightarrow> error + (rat list \<times> rat list \<times> rat list \<times> nat list)" where
  "precision_recall_fscore_support_None y_true y_pred =
     (if length y_true \<noteq> length y_pred then Inl ValueError
      else
        let tp = tp_sum y_true y_pred;
            pred = pred_sum_arr y_true y_pred;
            true = true_sum y_true y_pred;
            p = prf_divide tp pred;
            r = prf_divide tp true;
            f = f_score p r
        in Inr (p, r, f, true))"

text \<open>The call with \<^verbatim>\<open>average="micro"\<close> or \<^verbatim>\<open>average="weighted"\<close>: three scalars.\<close>

definition precision_recall_fscore_support_avg ::
  "average \<Rightarrow> int list \<Rightarrow> int list \<Rightarrow> error + (rat \<times> rat \<times> rat)" where
  "precision_recall_fscore_support_avg avg y_true y_pred =
     (if length y_true \<noteq> length y_pred then Inl ValueError
      else
        let tp0 = tp_sum y_true y_pred;
            pred0 = pred_sum_arr y_true y_pred;
            true0 = true_sum y_true y_pred;
            tp = (if avg = Micro then [sum_list tp0] else tp0);
            pred = (if avg = Micro then [sum_list pred0] else pred0);
            true = (if avg = Micro then [sum_list true0] else true0);
            p = prf_divide tp pred;
            r = prf_divide tp true;
            f = f_score p r
        in (case avg of
              Weighted \<Rightarrow>
                (if sum_list true = 0 then Inr (0, 0, 0)
                 else Inr (np_average p true, np_average r true, np_average f true))
            | Micro \<Rightarrow> Inr (np_mean p, np_mean r, np_mean f)))"

subsection \<open>get\_overall\_metrics\<close>

definition get_overall_metrics :: "int list \<Rightarrow> int list \<Rightarrow> error + metric_record" where
  "get_overall_metrics y_true y_pred =
     bind_err (precision_recall_fscore_support_avg Weighted y_true y_pred) (\<lambda>metrics.
       Inr \<lparr>precision = fst metrics,
            recall = fst (snd metrics),
            f1 = snd (snd metrics),
            num_samples = PyFloat (of_nat (length y_true))\<rparr>)"

subsection \<open>float64 arithmetic\<close>

text \<open>
  A float64 (IEEE 754 binary64) is kept as the rational number it denotes. Every arithmetic
  operation of numpy on float64 values returns the exact result rounded to the nearest
  float64, ties to the even mantissa: \<open>float64_round\<close>. With \<open>e\<close> the binary exponent of
  \<open>x\<close> (not below the least normal exponent, -1022) the float64 values near \<open>x\<close> are the integer
  multiples of \<open>2 ^ (e - 52)\<close>. Overflow to infinity is left out: it needs a value of at
  least \<open>2 ^ 1024\<close>, and every value rounded below lies between 0 and 2.
\<close>

text \<open>The number of binary digits of a positive integer.\<close>

function bit_length :: "int \<Rightarrow> nat" where
  "bit_length n = (if n \<le> 0 then 0 else Suc (bit_length (n div 2)))"
  by pat_completeness auto
termination
  by (relation "measure nat") auto

declare bit_length.simps [simp del]

definition pow2 :: "int \<Rightarrow> rat" where
  "pow2 e = (if 0 \<le> e then 2 ^ nat e else 1 / 2 ^ nat (- e))"

text \<open>The binary exponent of a positive rational: \<open>pow2 e \<le> x < pow2 (e + 1)\<close>.\<close>

definition ilog2 :: "rat \<Rightarrow> int" where
  "ilog2 x =
     (if 1 \<le> x then int (bit_length \<lfloor>x\<rfloor>) - 1
      else - int (bit_length (\<lceil>1 / x\<rceil> - 1)))"

definition round_half_even :: "rat \<Rightarrow> int" where
  "round_half_even m =
     (let f = \<lfloor>m\<rfloor>; d = m - of_int f
      in if d < 1 / 2 then f else if 1 / 2 < d then f + 1 else if even f then f else f + 1)"

definition float64_round :: "rat \<Rightarrow> rat" where
  "float64_round x =
     (if x = 0 then 0
      else let e = max (ilog2 \<bar>x\<bar>) (- 1022); q = pow2 (e - 52)
           in sgn x * of_int (round_half_even (\<bar>x\<bar> / q)) * q)"

text \<open>
  The library's F-score on float64 precision \<open>p\<close> and recall \<open>r\<close>, one rounding per
  operation: \<^verbatim>\<open>denom = beta2 * precision + recall\<close>, \<^verbatim>\<open>denom[denom == 0.0] = 1\<close>,
  \<^verbatim>\<open>f_score = (1 + beta2) * precision * recall / denom\<close> with \<^verbatim>\<open>beta2 = 1.0\<close>.
\<close>

definition float64_f_score :: "rat \<Rightarrow> rat \<Rightarrow> rat" where
  "float64_f_score p r =
     (let denom = float64_round (float64_round (1 * p) + r);
          denom = (if denom = 0 then 1 else denom)
      in float64_round (float64_round (float64_round ((1 + 1) * p) * r) / denom))"

text \<open>
  The float64 that the code stores under "f1" of a per-class record. The stored precision
  and recall are the float64 quotients of two counts, that is the record's exact precision
  and recall rounded once (the counts themselves are float64 values for arrays of fewer
  than \<open>2 ^ 53\<close> entries); the stored f1 is the library's F-score of these two.
\<close>

definition float64_f1 :: "metric_record \<Rightarrow> rat" where
  "float64_f1 m = float64_f_score (float64_round (precision m)) (float64_round (recall m))"

subsection \<open>get\_per\_class\_metrics\<close>

text \<open>
  \<^verbatim>\<open>sorted(items, key=..., reverse=True)\<close>: CPython reverses the list, sorts it stably in
  ascending order and reverses the result. The key \<^verbatim>\<open>tag[1]["f1"]\<close> is the stored float64.
\<close>

definition sorted_reverse :: "('a \<Rightarrow> rat) \<Rightarrow> 'a list \<Rightarrow> 'a list" where
  "sorted_reverse key xs = rev (sort_key key (rev xs))"

text \<open>
  The loop \<^verbatim>\<open>for i, _class in enumerate(class_to_index)\<close>: position \<open>i\<close> of each of the
  four arrays is read and the record is stored under the class name.
\<close>

fun per_class_loop ::
  "(rat list \<times> rat list \<times> rat list \<times> nat list) \<Rightarrow> (nat \<times> string) list \<Rightarrow>
   (string \<times> metric_record) list \<Rightarrow> error + (string \<times> metric_record) list" where
  "per_class_loop metrics [] per_class_metrics = Inr per_class_metrics"
| "per_class_loop metrics ((i, c) # rest) per_class_metrics =
     bind_err (np_index (fst metrics) i) (\<lambda>p.
     bind_err (np_index (fst (snd metrics)) i) (\<lambda>r.
     bind_err (np_index (fst (snd (snd metrics))) i) (\<lambda>f.
     bind_err (np_index (snd (snd (snd metrics))) i) (\<lambda>n.
       per_class_loop metrics rest
         (dict_set per_class_metrics c
            \<lparr>precision = p, recall = r, f1 = f, num_samples = PyFloat (of_nat n)\<rparr>)))))"

text \<open>
  \<^verbatim>\<open>class_to_index\<close> is a dict from class name to index, kept as the list of its items in
  insertion order; iterating it yields the keys.
\<close>

definition get_per_class_metrics ::
  "int list \<Rightarrow> int list \<Rightarrow> (string \<times> int) list \<Rightarrow> error + (string \<times> metric_record) list" where
  "get_per_class_metrics y_true y_pred class_to_index =
     bind_err (precision_recall_fscore_support_None y_true y_pred) (\<lambda>metrics.
     bind_err (per_class_loop metrics (enumerate 0 (map fst class_to_index)) []) (\<lambda>per_class_metrics.
       Inr (sorted_reverse (\<lambda>tag. float64_f1 (snd tag)) per_class_metrics)))"

subsection \<open>Slicing functions\<close>

text \<open>
  Python strings are lists of characters with code points 0 to 255. \<^verbatim>\<open>str.lower()\<close>
  maps the capital letters of that range (A to Z, and the accented capitals 192 to 222
  except the multiplication sign 215) to the letter 32 places further.
\<close>

definition lower_char :: "char \<Rightarrow> char" where
  "lower_char c =
     (let n = (of_char c :: nat)
      in if (65 \<le> n \<and> n \<le> 90) \<or> (192 \<le> n \<and> n \<le> 214) \<or> (216 \<le> n \<and> n \<le> 222)
         then char_of (n + 32) else c)"

definition lower :: "string \<Rightarrow> string" where
  "lower s = map lower_char s"

text \<open>\<^verbatim>\<open>s in t\<close> on strings: \<open>s\<close> occurs in \<open>t\<close> as a contiguous substring.\<close>

fun str_in :: "string \<Rightarrow> string \<Rightarrow> bool" where
  "str_in s [] = (s = [])"
| "str_in s (c # t) = (prefix s (c # t) \<or> str_in s t)"

text \<open>
  \<^verbatim>\<open>str.isspace()\<close> on one character of the range: tab to carriage return, the four
  separators 28 to 31, space, next-line (133) and no-break space (160).
\<close>

definition isspace :: "char \<Rightarrow> bool" where
  "isspace c =
     (let n = (of_char c :: nat)
      in (9 \<le> n \<and> n \<le> 13) \<or> (28 \<le> n \<and> n \<le> 32) \<or> n = 133 \<or> n = 160)"

text \<open>
  \<^verbatim>\<open>str.split()\<close> without a separator: the maximal runs of non-whitespace characters,
  in order; \<open>cur\<close> is the token being read.
\<close>

fun split_from :: "string \<Rightarrow> string \<Rightarrow> string list" where
  "split_from cur [] = (if cur = [] then [] else [cur])"
| "split_from cur (c # cs) =
     (if isspace c then (if cur = [] then split_from [] cs else cur # split_from [] cs)
      else split_from (cur @ [c]) cs)"

definition str_split :: "string \<Rightarrow> string list" where
  "str_split s = split_from [] s"

definition llm_terms :: "string list" where
  "llm_terms = [''transformer'', ''llm'', ''bert'']"

definition nlp_llm :: "example \<Rightarrow> bool" where
  "nlp_llm x =
     (let nlp_project = str_in ''natural-language-processing'' (ex_tag x);
          llm_project = list_ex (\<lambda>s. str_in (lower s) (lower (ex_text x))) llm_terms
      in nlp_project \<and> llm_project)"

definition short_text :: "example \<Rightarrow> bool" where
  "short_text x = (length (str_split (ex_text x)) < 8)"

subsection \<open>get\_slice\_metrics\<close>

definition slicing_functions :: "(string \<times> (example \<Rightarrow> bool)) list" where
  "slicing_functions = [(''nlp_llm'', nlp_llm), (''short_text'', short_text)]"

text \<open>
  \<^verbatim>\<open>PandasSFApplier(slicing_functions).apply(df)\<close>: one named column per slicing
  function, holding the function's value on every row of the frame (\<open>slice_columns\<close>).
  On a frame without rows the applier raises ValueError.
\<close>

definition slice_columns ::
  "(string \<times> (example \<Rightarrow> bool)) list \<Rightarrow> example list \<Rightarrow> (string \<times> bool list) list" where
  "slice_columns sfs df = map (\<lambda>(name, sf). (name, map sf df)) sfs"

definition applier_apply ::
  "(string \<times> (example \<Rightarrow> bool)) list \<Rightarrow> example list \<Rightarrow>
   error + (string \<times> bool list) list" where
  "applier_apply sfs df = (if df = [] then Inl ValueError else Inr (slice_columns sfs df))"

text \<open>\<^verbatim>\<open>sum(mask)\<close>: the number of true entries of the mask \<open>msk\<close>.\<close>

definition sum_mask :: "bool list \<Rightarrow> nat" where
  "sum_mask msk = length (filter (\<lambda>b. b) msk)"

text \<open>
  \<^verbatim>\<open>y[mask]\<close> with a boolean mask \<open>msk\<close>: the entries at the true positions;
  numpy raises IndexError when the mask and the array differ in length.
\<close>

definition bool_index :: "'a list \<Rightarrow> bool list \<Rightarrow> error + 'a list" where
  "bool_index ys msk =
     (if length msk \<noteq> length ys then Inl IndexError
      else Inr (map fst (filter snd (zip ys msk))))"

fun slice_loop ::
  "int list \<Rightarrow> int list \<Rightarrow> (string \<times> bool list) list \<Rightarrow> (string \<times> metric_record) list \<Rightarrow>
   error + (string \<times> metric_record) list" where
  "slice_loop y_true y_pred [] slice_metrics = Inr slice_metrics"
| "slice_loop y_true y_pred ((slice_name, msk) # rest) slice_metrics =
     (if sum_mask msk \<noteq> 0 then
        bind_err (bool_index y_true msk) (\<lambda>yt.
        bind_err (bool_index y_pred msk) (\<lambda>yp.
        bind_err (precision_recall_fscore_support_avg Micro yt yp) (\<lambda>metrics.
          slice_loop y_true y_pred rest
            (dict_set slice_metrics slice_name
               \<lparr>precision = fst metrics,
                recall = fst (snd metrics),
                f1 = snd (snd metrics),
                num_samples = PyInt (int (length yt))\<rparr>))))
      else slice_loop y_true y_pred rest slice_metrics)"

text \<open>
  \<open>df\<close> is the data frame the source obtains from the dataset by the first preprocessor
  (\<^verbatim>\<open>preprocessor.preprocessors[0].transform(ds).to_pandas()\<close>), one row per example.
\<close>

definition get_slice_metrics ::
  "int list \<Rightarrow> int list \<Rightarrow> example list \<Rightarrow> error + (string \<times> metric_record) list" where
  "get_slice_metrics y_true y_pred df =
     bind_err (applier_apply slicing_functions df) (\<lambda>slices.
       slice_loop y_true y_pred slices [])"

subsection \<open>Notions used in the statements\<close>

text \<open>The record built from position \<open>i\<close> of the four arrays of the library call.\<close>

definition metric_at ::
  "(rat list \<times> rat list \<times> rat list \<times> nat list) \<Rightarrow> nat \<Rightarrow> metric_record" where
  "metric_at metrics i =
     \<lparr>precision = fst metrics ! i,
      recall = fst (snd metrics) ! i,
      f1 = fst (snd (snd metrics)) ! i,
      num_samples = PyFloat (of_nat (snd (snd (snd metrics)) ! i))\<rparr>"

definition arrays_of_length ::
  "nat \<Rightarrow> (rat list \<times> rat list \<times> rat list \<times> nat list) \<Rightarrow> bool" where
  "arrays_of_length L metrics =
     (length (fst metrics) = L \<and> length (fst (snd metrics)) = L \<and>
      length (fst (snd (snd metrics))) = L \<and> length (snd (snd (snd metrics))) = L)"

definition unit_interval :: "rat \<Rightarrow> bool" where
  "unit_interval x = (0 \<le> x \<and> x \<le> 1)"

text \<open>
  The specification's wording of the per-class counts: for a class \<open>c\<close>, a true positive
  is a position where truth and prediction are both \<open>c\<close>, a false positive one where
  only the prediction is \<open>c\<close>, a false negative one where only the truth is \<open>c\<close>.
\<close>

definition spec_TP :: "int \<Rightarrow> int list \<Rightarrow> int list \<Rightarrow> nat" where
  "spec_TP c ts ps = length (filter (\<lambda>(t, p). t = c \<and> p = c) (zip ts ps))"

definition spec_FP :: "int \<Rightarrow> int list \<Rightarrow> int list \<Rightarrow> nat" where
  "spec_FP c ts ps = length (filter (\<lambda>(t, p). p = c \<and> t \<noteq> c) (zip ts ps))"

definition spec_FN :: "int \<Rightarrow> int list \<Rightarrow> int list \<Rightarrow> nat" where
  "spec_FN c ts ps = length (filter (\<lambda>(t, p). t = c \<and> p \<noteq> c) (zip ts ps))"

definition spec_ratio :: "nat \<Rightarrow> nat \<Rightarrow> rat" where
  "spec_ratio n d = (if d = 0 then 0 else of_nat n / of_nat d)"

text \<open>The harmonic mean of precision and recall, 0 if both are 0.\<close>

definition spec_harmonic_mean :: "rat \<Rightarrow> rat \<Rightarrow> rat" where
  "spec_harmonic_mean p r = (if p = 0 \<and> r = 0 then 0 else 2 * p * r / (p + r))"

text \<open>
  The specification's wording of micro averaging: the counts are pooled over all classes
  of the subset, then a single precision, recall and F1 is computed.
\<close>

definition spec_classes :: "int list \<Rightarrow> int list \<Rightarrow> int list" where
  "spec_classes ts ps = remdups (ts @ ps)"

definition spec_pooled :: "(int \<Rightarrow> int list \<Rightarrow> int list \<Rightarrow> nat) \<Rightarrow> int list \<Rightarrow> int list \<Rightarrow> nat" where
  "spec_pooled cnt ts ps = sum_list (map (\<lambda>c. cnt c ts ps) (spec_classes ts ps))"

definition spec_micro_precision :: "int list \<Rightarrow> int list \<Rightarrow> rat" where
  "spec_micro_precision ts ps =
     spec_ratio (spec_pooled spec_TP ts ps) (spec_pooled spec_TP ts ps + spec_pooled spec_FP ts ps)"

definition spec_micro_recall :: "int list \<Rightarrow> int list \<Rightarrow> rat" where
  "spec_micro_recall ts ps =
     spec_ratio (spec_pooled spec_TP ts ps) (spec_pooled spec_TP ts ps + spec_pooled spec_FN ts ps)"

definition spec_micro_f1 :: "int list \<Rightarrow> int list \<Rightarrow> rat" where
  "spec_micro_f1 ts ps =
     spec_harmonic_mean (spec_micro_precision ts ps) (spec_micro_recall ts ps)"

text \<open>
  The entries of an array at the true positions of a mask, and the record the
  specification prescribes for a slice with that mask: micro-averaged scores over the
  masked truth and prediction, and the number of true entries as a plain integer.
\<close>

definition masked :: "'a list \<Rightarrow> bool list \<Rightarrow> 'a list" where
  "masked ys msk = map fst (filter snd (zip ys msk))"

definition spec_slice_record :: "int list \<Rightarrow> int list \<Rightarrow> bool list \<Rightarrow> metric_record" where
  "spec_slice_record y_true y_pred msk =
     \<lparr>precision = spec_micro_precision (masked y_true msk) (masked y_pred msk),
      recall = spec_micro_recall (masked y_true msk) (masked y_pred msk),
      f1 = spec_micro_f1 (masked y_true msk) (masked y_pred msk),
      num_samples = PyInt (int (sum_mask msk))\<rparr>"

definition positive_count :: "metric_record \<Rightarrow> bool" where
  "positive_count m = (case num_samples m of PyInt n \<Rightarrow> 0 < n | PyFloat x \<Rightarrow> False)"

text \<open>
  The specification's wording of the two predicates: \<open>t\<close> contains \<open>s\<close> when \<open>s\<close> is a
  contiguous part of \<open>t\<close>; it contains \<open>s\<close> case-insensitively when some contiguous part of
  \<open>t\<close> equals \<open>s\<close> up to the case of the letters.
\<close>

definition spec_contains :: "string \<Rightarrow> string \<Rightarrow> bool" where
  "spec_contains t s = (\<exists>pre post. t = pre @ s @ post)"

definition spec_contains_ci :: "string \<Rightarrow> string \<Rightarrow> bool" where
  "spec_contains_ci t s = (\<exists>pre w post. t = pre @ w @ post \<and> lower w = lower s)"

text \<open>
  The number of whitespace-separated tokens of a text, counted without splitting: a token
  starts at every non-whitespace character that is the first character of the text or
  follows a whitespace character.
\<close>

definition spec_num_tokens :: "string \<Rightarrow> nat" where
  "spec_num_tokens s =
     length (filter (\<lambda>(prev, c). isspace prev \<and> \<not> isspace c) (zip (CHR '' '' # s) s))"

section \<open>Properties\<close>

subsection \<open>Evaluating float64 arithmetic\<close>

lemma floor_numeral_div:
  "\<lfloor>numeral a / numeral b :: rat\<rfloor> = numeral a div numeral b"
  using floor_divide_of_int_eq[of "numeral a" "numeral b", where ?'a = rat] by simp

lemma ceiling_numeral_div:
  "\<lceil>numeral a / numeral b :: rat\<rceil> = - (- numeral a div numeral b)"
  using floor_divide_of_int_eq[of "- numeral a" "numeral b", where ?'a = rat]
  by (simp add: ceiling_def)

lemmas float64_eval =
  float64_f1_def float64_f_score_def float64_round_def round_half_even_def ilog2_def
  pow2_def bit_length.simps floor_numeral_div ceiling_numeral_div

text \<open>
  The stored f1 of the records met below. One third and one fifth are not float64 values:
  the F-score of precision 1/3 and recall 1/3 and that of precision 1 and recall 1/5 are
  both 1/3 exactly, and differ as float64.
\<close>

lemma float64_f1_values:
  "float64_f1 \<lparr>precision = 1, recall = 1 / 2, f1 = x, num_samples = n\<rparr>
     = 6004799503160661 / 9007199254740992"
  "float64_f1 \<lparr>precision = 1 / 2, recall = 1, f1 = x, num_samples = n\<rparr>
     = 6004799503160661 / 9007199254740992"
  "float64_f1 \<lparr>precision = 2 / 3, recall = 1, f1 = x, num_samples = n\<rparr>
     = 3602879701896397 / 4503599627370496"
  "float64_f1 \<lparr>precision = 1 / 3, recall = 1 / 3, f1 = x, num_samples = n\<rparr>
     = 6004799503160661 / 18014398509481984"
  "float64_f1 \<lparr>precision = 1, recall = 1 / 5, f1 = x, num_samples = n\<rparr>
     = 3002399751580331 / 9007199254740992"
  "float64_f1 \<lparr>precision = 1, recall = 1, f1 = x, num_samples = n\<rparr> = 1"
  "float64_f1 \<lparr>precision = 0, recall = 0, f1 = x, num_samples = n\<rparr> = 0"
  by (simp_all add: float64_eval Let_def)

subsection \<open>Dictionaries, the per-class loop and the sort\<close>

lemma dict_set_keys: "fst ` set (dict_set d k v) = insert k (fst ` set d)"
proof (induction d)
  case Nil
  show ?case by simp
next
  case (Cons kv d)
  obtain k' v' where kv: "kv = (k', v')" by (cases kv)
  show ?case
  proof (cases "k' = k")
    case True
    then show ?thesis by (simp add: kv)
  next
    case False
    then show ?thesis using Cons.IH by (simp add: kv insert_commute)
  qed
qed

lemma dict_set_fresh: "k \<notin> fst ` set d \<Longrightarrow> dict_set d k v = d @ [(k, v)]"
  by (induction d) auto

lemma map_of_dict_set: "map_of (dict_set d k v) = (map_of d)(k \<mapsto> v)"
  by (induction d) (auto simp: fun_eq_iff)

lemma per_class_loop_ok:
  assumes "arrays_of_length L metrics" and "\<forall>ic \<in> set ics. fst ic < L"
    and "distinct (map snd ics)" and "snd ` set ics \<inter> fst ` set d = {}"
  shows "per_class_loop metrics ics d = Inr (d @ map (\<lambda>ic. (snd ic, metric_at metrics (fst ic))) ics)"
  using assms
proof (induction ics arbitrary: d)
  case Nil
  then show ?case by simp
next
  case (Cons ic ics)
  obtain i c where ic: "ic = (i, c)" by (cases ic)
  have fresh: "c \<notin> fst ` set d" using Cons.prems(4) ic by auto
  have iL: "i < L" using Cons.prems(2) ic by auto
  let ?d' = "d @ [(c, metric_at metrics i)]"
  have "snd ` set ics \<inter> fst ` set ?d' = {}"
    using Cons.prems(3,4) ic by (auto simp: image_iff) 
  then have IH: "per_class_loop metrics ics ?d' = Inr (?d' @ map (\<lambda>ic. (snd ic, metric_at metrics (fst ic))) ics)"
    using Cons.IH[of ?d'] Cons.prems by simp
  show ?case
    using Cons.prems(1) iL IH
    by (simp add: ic bind_err_def np_index_def arrays_of_length_def dict_set_fresh[OF fresh] metric_at_def)
qed

lemma per_class_loop_fail:
  assumes "arrays_of_length L metrics" and "\<exists>ic \<in> set ics. L \<le> fst ic"
  shows "per_class_loop metrics ics d = Inl IndexError"
  using assms
proof (induction ics arbitrary: d)
  case Nil
  then show ?case by simp
next
  case (Cons ic ics)
  obtain i c where ic: "ic = (i, c)" by (cases ic)
  show ?case
  proof (cases "i < L")
    case True
    then have "\<exists>ic \<in> set ics. L \<le> fst ic" using Cons.prems(2) ic by auto
    then have "\<And>d'. per_class_loop metrics ics d' = Inl IndexError"
      using Cons.IH Cons.prems(1) by blast
    then show ?thesis using True Cons.prems(1)
      by (simp add: ic bind_err_def np_index_def arrays_of_length_def)
  next
    case False
    then show ?thesis using Cons.prems(1)
      by (simp add: ic bind_err_def np_index_def arrays_of_length_def)
  qed
qed

lemma per_class_loop_keys:
  "per_class_loop metrics ics d = Inr out \<Longrightarrow> fst ` set out = fst ` set d \<union> snd ` set ics"
proof (induction ics arbitrary: d)
  case Nil
  then show ?case by simp
next
  case (Cons ic ics)
  obtain i c where ic: "ic = (i, c)" by (cases ic)
  from Cons.prems obtain d' where d': "per_class_loop metrics ics d' = Inr out"
    and keys: "fst ` set d' = insert c (fst ` set d)"
    by (auto simp: ic bind_err_def dict_set_keys split: sum.splits)
  from Cons.IH[OF d'] keys show ?case by (auto simp: ic)
qed

lemma prfs_None_lengths:
  "precision_recall_fscore_support_None y_true y_pred = Inr metrics \<Longrightarrow>
   arrays_of_length (length (unique_labels y_true y_pred)) metrics"
  by (auto simp: precision_recall_fscore_support_None_def arrays_of_length_def Let_def
      prf_divide_def f_score_def tp_sum_def pred_sum_arr_def true_sum_def bincount_def
      split: if_splits)

lemma sorted_reverse_set: "set (sorted_reverse key xs) = set xs"
  by (simp add: sorted_reverse_def)

lemma sorted_reverse_length: "length (sorted_reverse key xs) = length xs"
  by (simp add: sorted_reverse_def)

lemma sorted_reverse_distinct: "distinct (sorted_reverse key xs) = distinct xs"
  by (simp add: sorted_reverse_def)

lemma sorted_reverse_stable:
  "filter (\<lambda>y. key y = v) (sorted_reverse key xs) = filter (\<lambda>y. key y = v) xs"
  by (simp add: sorted_reverse_def rev_filter[symmetric] sort_key_stable)

lemma sorted_reverse_descending:
  "sorted_wrt (\<lambda>a b. key b \<le> key a) (sorted_reverse key xs)"
proof -
  have "sorted (map key (sort_key key (rev xs)))" by simp
  then have "sorted_wrt (\<lambda>a b. key a \<le> key b) (sort_key key (rev xs))"
    by (simp add: sorted_map)
  then show ?thesis
    by (simp add: sorted_reverse_def sorted_wrt_rev)
qed

lemma sorted_reverse_distinct_keys:
  "distinct (map fst (sorted_reverse key xs)) = distinct (map fst xs)"
  by (simp add: distinct_map sorted_reverse_distinct sorted_reverse_set)

lemma enumerate_fst_less: "ic \<in> set (enumerate n xs) \<Longrightarrow> fst ic < n + length xs"
  by (auto simp: in_set_enumerate_eq)

subsection \<open>Counts and scores of the library call\<close>

lemma tp_bins_Cons:
  "tp_bins (t # ts) (p # ps) = (if t = p then t # tp_bins ts ps else tp_bins ts ps)"
  by (simp add: tp_bins_def)

lemma tp_bins_Nil: "tp_bins [] ps = []" "tp_bins ts [] = []"
  by (simp_all add: tp_bins_def)

lemma count_tp_le_true: "count_list (tp_bins ts ps) l \<le> count_list ts l"
proof (induction ts arbitrary: ps)
  case Nil
  show ?case by (simp add: tp_bins_Nil)
next
  case (Cons t ts)
  show ?case
  proof (cases ps)
    case Nil
    then show ?thesis by (simp add: tp_bins_Nil)
  next
    case (Cons p ps')
    then show ?thesis using Cons.IH[of ps'] by (simp add: tp_bins_Cons le_SucI)
  qed
qed

lemma count_tp_le_pred: "count_list (tp_bins ts ps) l \<le> count_list ps l"
proof (induction ts arbitrary: ps)
  case Nil
  show ?case by (simp add: tp_bins_Nil)
next
  case (Cons t ts)
  show ?case
  proof (cases ps)
    case Nil
    then show ?thesis by (simp add: tp_bins_Nil)
  next
    case (Cons p ps')
    then show ?thesis using Cons.IH[of ps'] by (simp add: tp_bins_Cons le_SucI)
  qed
qed

lemma ratio_range:
  fixes n d :: nat
  assumes "n \<le> d"
  shows "0 \<le> (if d = 0 then 0 else of_nat n / of_nat d :: rat)"
    and "(if d = 0 then 0 else of_nat n / of_nat d :: rat) \<le> 1"
  using assms by (auto simp: divide_le_eq_1)

lemma prf_divide_bincount_range:
  assumes "\<And>l. count_list xs l \<le> count_list ys l"
  shows "\<forall>x \<in> set (prf_divide (bincount labels xs) (bincount labels ys)). unit_interval x"
proof -
  have "zip (bincount labels xs) (bincount labels ys)
        = map (\<lambda>l. (count_list xs l, count_list ys l)) labels"
    by (simp add: bincount_def zip_map_map) (simp add: zip_same_conv_map)
  then show ?thesis
    using assms by (auto simp: prf_divide_def unit_interval_def ratio_range)
qed

lemma f_point_range:
  fixes p r :: rat
  assumes "unit_interval p" "unit_interval r"
  shows "unit_interval ((1 + 1) * p * r / (if p + r = 0 then 1 else p + r))"
proof (cases "p + r = 0")
  case True
  then have "p = 0" using assms by (simp add: unit_interval_def add_nonneg_eq_0_iff)
  then show ?thesis by (simp add: unit_interval_def)
next
  case False
  have p: "0 \<le> p" "p \<le> 1" and r: "0 \<le> r" "r \<le> 1"
    using assms by (simp_all add: unit_interval_def)
  have pos: "0 < p + r" using False p r by linarith
  have "p * r \<le> p * 1" using p r by (intro mult_left_mono) simp_all
  moreover have "p * r \<le> 1 * r" using p r by (intro mult_right_mono) simp_all
  ultimately have "(1 + 1) * p * r \<le> p + r" by (simp add: algebra_simps)
  moreover have "0 \<le> (1 + 1) * p * r" using p r by simp
  ultimately show ?thesis using pos False
    by (simp add: unit_interval_def divide_le_eq_1)
qed

lemma f_score_range:
  assumes "\<forall>p \<in> set ps. unit_interval p" "\<forall>r \<in> set rs. unit_interval r"
  shows "\<forall>f \<in> set (f_score ps rs). unit_interval f"
proof
  fix f assume "f \<in> set (f_score ps rs)"
  then obtain p r where pr: "(p, r) \<in> set (zip ps rs)"
    and f: "f = (1 + 1) * p * r / (if p + r = 0 then 1 else p + r)"
    by (auto simp: f_score_def)
  have "p \<in> set ps" "r \<in> set rs"
    using pr by (auto dest: set_zip_leftD set_zip_rightD)
  then have "unit_interval p" "unit_interval r" using assms by auto
  then show "unit_interval f" unfolding f by (rule f_point_range)
qed

lemma weighted_sum_bounds:
  assumes "\<forall>x \<in> set a. unit_interval x"
  shows "0 \<le> sum_list (map (\<lambda>(x, n). x * rat_of_nat n) (zip a w))
       \<and> sum_list (map (\<lambda>(x, n). x * rat_of_nat n) (zip a w)) \<le> rat_of_nat (sum_list w)"
  using assms
proof (induction a arbitrary: w)
  case Nil
  show ?case by simp
next
  case (Cons x a)
  show ?case
  proof (cases w)
    case Nil
    then show ?thesis by simp
  next
    case (Cons n w')
    have x: "0 \<le> x" "x \<le> 1" using Cons.prems by (simp_all add: unit_interval_def)
    have IH: "0 \<le> sum_list (map (\<lambda>(x, n). x * rat_of_nat n) (zip a w'))
       \<and> sum_list (map (\<lambda>(x, n). x * rat_of_nat n) (zip a w')) \<le> rat_of_nat (sum_list w')"
      using Cons.IH[of w'] Cons.prems by simp
    have "x * rat_of_nat n \<le> 1 * rat_of_nat n"
      using x by (intro mult_right_mono) simp_all
    moreover have "0 \<le> x * rat_of_nat n" using x by simp
    ultimately show ?thesis using IH Cons by simp
  qed
qed

lemma np_average_range:
  assumes "\<forall>x \<in> set a. unit_interval x" "0 < sum_list w"
  shows "unit_interval (np_average a w)"
  using weighted_sum_bounds[OF assms(1), of w] assms(2)
  by (simp add: np_average_def unit_interval_def divide_le_eq_1)

lemma unique_labels_set: "set (unique_labels y_true y_pred) = set y_true \<union> set y_pred"
  by (simp add: unique_labels_def)

lemma unique_labels_distinct: "distinct (unique_labels y_true y_pred)"
  by (simp add: unique_labels_def)

lemma sum_bincount:
  assumes "distinct labels" "set ys \<subseteq> set labels"
  shows "sum_list (bincount labels ys) = length ys"
proof -
  have "sum_list (map (count_list ys) labels) = sum (count_list ys) (set labels)"
    using assms(1) by (rule sum_list_distinct_conv_sum_set)
  also have "\<dots> = length ys"
    using assms(2) by (intro sum_count_set) simp_all
  finally show ?thesis by (simp add: bincount_def)
qed

lemma sum_true_sum: "sum_list (true_sum y_true y_pred) = length y_true"
  by (simp add: true_sum_def sum_bincount unique_labels_set unique_labels_distinct)

lemma sum_pred_sum: "sum_list (pred_sum_arr y_true y_pred) = length y_pred"
  by (simp add: pred_sum_arr_def sum_bincount unique_labels_set unique_labels_distinct)

lemma weighted_value:
  assumes "length y_true = length y_pred" "y_true \<noteq> []"
  shows "precision_recall_fscore_support_avg Weighted y_true y_pred =
     Inr (np_average (prf_divide (tp_sum y_true y_pred) (pred_sum_arr y_true y_pred)) (true_sum y_true y_pred),
          np_average (prf_divide (tp_sum y_true y_pred) (true_sum y_true y_pred)) (true_sum y_true y_pred),
          np_average (f_score (prf_divide (tp_sum y_true y_pred) (pred_sum_arr y_true y_pred))
                              (prf_divide (tp_sum y_true y_pred) (true_sum y_true y_pred)))
                     (true_sum y_true y_pred))"
proof -
  have ne: "sum_list (true_sum y_true y_pred) \<noteq> 0"
    using assms(2) by (simp only: sum_true_sum) simp
  show ?thesis
    using assms(1) ne
    by (simp add: precision_recall_fscore_support_avg_def Let_def del: sum_list_eq_0_iff)
qed

lemma precision_arr_range:
  "\<forall>x \<in> set (prf_divide (tp_sum y_true y_pred) (pred_sum_arr y_true y_pred)). unit_interval x"
  unfolding tp_sum_def pred_sum_arr_def
  by (rule prf_divide_bincount_range) (rule count_tp_le_pred)

lemma recall_arr_range:
  "\<forall>x \<in> set (prf_divide (tp_sum y_true y_pred) (true_sum y_true y_pred)). unit_interval x"
  unfolding tp_sum_def true_sum_def
  by (rule prf_divide_bincount_range) (rule count_tp_le_true)

subsection \<open>Overall metrics\<close>

text \<open>
  Claim C9. For truth and prediction arrays of equal length that are not empty,
  \<open>get_overall_metrics\<close> returns a record whose precision, recall and f1 lie in the closed
  interval from 0 to 1 and whose num\_samples is the length of the truth array.
\<close>

theorem overall_metrics_range:
  assumes "length y_true = length y_pred" and "y_true \<noteq> []"
  shows "\<exists>m. get_overall_metrics y_true y_pred = Inr m
           \<and> 0 \<le> precision m \<and> precision m \<le> 1
           \<and> 0 \<le> recall m \<and> recall m \<le> 1
           \<and> 0 \<le> f1 m \<and> f1 m \<le> 1
           \<and> num_samples m = PyFloat (of_nat (length y_true))"
proof -
  have pos: "0 < sum_list (true_sum y_true y_pred)"
    using assms(2) by (simp add: sum_true_sum)
  let ?p = "prf_divide (tp_sum y_true y_pred) (pred_sum_arr y_true y_pred)"
  let ?r = "prf_divide (tp_sum y_true y_pred) (true_sum y_true y_pred)"
  have p: "unit_interval (np_average ?p (true_sum y_true y_pred))"
    using precision_arr_range pos by (rule np_average_range)
  have r: "unit_interval (np_average ?r (true_sum y_true y_pred))"
    using recall_arr_range pos by (rule np_average_range)
  have "\<forall>x \<in> set (f_score ?p ?r). unit_interval x"
    using precision_arr_range recall_arr_range by (rule f_score_range)
  then have f: "unit_interval (np_average (f_score ?p ?r) (true_sum y_true y_pred))"
    using pos by (rule np_average_range)
  show ?thesis
    using p r f
    by (simp add: get_overall_metrics_def bind_err_def weighted_value[OF assms] unit_interval_def)
qed

theorem overall_metrics_range_witness:
  "length [0, 0, 1, 1 :: int] = length [0, 1, 1, 1 :: int] \<and> [0, 0, 1, 1 :: int] \<noteq> []
   \<and> (\<exists>m. get_overall_metrics [0, 0, 1, 1] [0, 1, 1, 1] = Inr m
           \<and> 0 \<le> precision m \<and> precision m \<le> 1
           \<and> 0 \<le> recall m \<and> recall m \<le> 1
           \<and> 0 \<le> f1 m \<and> f1 m \<le> 1
           \<and> num_samples m = PyFloat 4)"
  using overall_metrics_range[of "[0, 0, 1, 1]" "[0, 1, 1, 1]"] by simp

text \<open>
  Claim C2, as stated, asks for an error on inputs of length 0 as well. The source has no
  check of its own and the library call returns zeros for two empty arrays, so the call
  on empty arrays returns a record.
\<close>

theorem overall_metrics_empty_returns:
  "get_overall_metrics [] [] =
     Inr \<lparr>precision = 0, recall = 0, f1 = 0, num_samples = PyFloat 0\<rparr>
   \<and> \<not> isl (get_overall_metrics [] [])"
  by (simp add: get_overall_metrics_def bind_err_def precision_recall_fscore_support_avg_def
      Let_def tp_sum_def pred_sum_arr_def true_sum_def unique_labels_def bincount_def)

text \<open>
  Claim C2, amended. \<open>get_overall_metrics\<close> fails exactly when the truth and prediction
  arrays differ in length, and the failure is the ValueError of the library call, passed on
  to the caller; arrays of length 0 are not an error.
\<close>

theorem overall_metrics_error_iff:
  "(isl (get_overall_metrics y_true y_pred) \<longleftrightarrow> length y_true \<noteq> length y_pred)
   \<and> (length y_true \<noteq> length y_pred \<longrightarrow> get_overall_metrics y_true y_pred = Inl ValueError)"
  by (simp add: get_overall_metrics_def bind_err_def precision_recall_fscore_support_avg_def Let_def)

theorem overall_metrics_error_iff_witness:
  "length [1 :: int] \<noteq> length ([] :: int list)
   \<and> isl (get_overall_metrics [1] [])
   \<and> get_overall_metrics [1] [] = Inl ValueError"
  using overall_metrics_error_iff[of "[1]" "[]"] by simp

subsection \<open>Per-class metrics\<close>

lemma per_class_items:
  assumes "distinct (map fst class_to_index)"
    and "precision_recall_fscore_support_None y_true y_pred = Inr metrics"
    and "length class_to_index \<le> length (unique_labels y_true y_pred)"
  shows "per_class_loop metrics (enumerate 0 (map fst class_to_index)) [] =
         Inr (map (\<lambda>ic. (snd ic, metric_at metrics (fst ic))) (enumerate 0 (map fst class_to_index)))"
proof -
  have len: "arrays_of_length (length (unique_labels y_true y_pred)) metrics"
    using assms(2) by (rule prfs_None_lengths)
  have bound: "\<forall>ic \<in> set (enumerate 0 (map fst class_to_index)). fst ic < length (unique_labels y_true y_pred)"
    using assms(3) by (auto simp: in_set_enumerate_eq)
  have dist: "distinct (map snd (enumerate 0 (map fst class_to_index)))"
    using assms(1) by simp
  show ?thesis
    using per_class_loop_ok[OF len bound dist, of "[]"] by simp
qed

lemma per_class_too_few_labels:
  assumes "precision_recall_fscore_support_None y_true y_pred = Inr metrics"
    and "length (unique_labels y_true y_pred) < length class_to_index"
  shows "per_class_loop metrics (enumerate 0 (map fst class_to_index)) d = Inl IndexError"
proof -
  have len: "arrays_of_length (length (unique_labels y_true y_pred)) metrics"
    using assms(1) by (rule prfs_None_lengths)
  let ?L = "length (unique_labels y_true y_pred)"
  have "(?L, map fst class_to_index ! ?L) \<in> set (enumerate 0 (map fst class_to_index))"
    using assms(2) by (simp add: in_set_enumerate_eq)
  then have "\<exists>ic \<in> set (enumerate 0 (map fst class_to_index)). ?L \<le> fst ic"
    by force
  with len show ?thesis by (rule per_class_loop_fail)
qed

lemma prfs_None_isl:
  "isl (precision_recall_fscore_support_None y_true y_pred) \<longleftrightarrow> length y_true \<noteq> length y_pred"
  by (simp add: precision_recall_fscore_support_None_def Let_def)

lemma per_class_fails_iff:
  assumes "distinct (map fst class_to_index)"
  shows "isl (get_per_class_metrics y_true y_pred class_to_index) \<longleftrightarrow>
         length y_true \<noteq> length y_pred \<or> length (unique_labels y_true y_pred) < length class_to_index"
proof (cases "precision_recall_fscore_support_None y_true y_pred")
  case (Inl e)
  then have "length y_true \<noteq> length y_pred"
    using prfs_None_isl[of y_true y_pred] by simp
  then show ?thesis using Inl by (simp add: get_per_class_metrics_def bind_err_def)
next
  case (Inr metrics)
  then have eq: "length y_true = length y_pred"
    using prfs_None_isl[of y_true y_pred] by simp
  show ?thesis
  proof (cases "length (unique_labels y_true y_pred) < length class_to_index")
    case True
    then show ?thesis
      using per_class_too_few_labels[OF Inr True] Inr
      by (simp add: get_per_class_metrics_def bind_err_def)
  next
    case False
    then have "length class_to_index \<le> length (unique_labels y_true y_pred)" by simp
    from per_class_items[OF assms Inr this] show ?thesis
      using Inr eq False by (simp add: get_per_class_metrics_def bind_err_def)
  qed
qed

lemma per_class_output:
  assumes "distinct (map fst class_to_index)"
    and "get_per_class_metrics y_true y_pred class_to_index = Inr out"
  shows "\<exists>metrics. precision_recall_fscore_support_None y_true y_pred = Inr metrics
          \<and> out = sorted_reverse (\<lambda>tag. float64_f1 (snd tag))
                 (map (\<lambda>ic. (snd ic, metric_at metrics (fst ic))) (enumerate 0 (map fst class_to_index)))"
proof -
  have nofail: "\<not> isl (get_per_class_metrics y_true y_pred class_to_index)"
    using assms(2) by simp
  then have eq: "length y_true = length y_pred"
    and le: "length class_to_index \<le> length (unique_labels y_true y_pred)"
    using per_class_fails_iff[OF assms(1), of y_true y_pred] by auto
  obtain metrics where m: "precision_recall_fscore_support_None y_true y_pred = Inr metrics"
    using eq by (simp add: precision_recall_fscore_support_None_def Let_def)
  from per_class_items[OF assms(1) m le] assms(2) m show ?thesis
    by (simp add: get_per_class_metrics_def bind_err_def)
qed

lemma map_fst_filter_distinct:
  assumes "distinct (map fst items)"
  shows "map fst (filter P items) = filter (\<lambda>k. \<exists>m. (k, m) \<in> set items \<and> P (k, m)) (map fst items)"
  using assms
proof (induction items)
  case Nil
  show ?case by simp
next
  case (Cons km items)
  obtain k m where km: "km = (k, m)" by (cases km)
  have fresh: "k \<notin> fst ` set items" using Cons.prems km by simp
  have IH: "map fst (filter P items) = filter (\<lambda>k. \<exists>m. (k, m) \<in> set items \<and> P (k, m)) (map fst items)"
    using Cons by simp
  have same: "filter (\<lambda>k'. \<exists>m'. (k', m') \<in> set (km # items) \<and> P (k', m')) (map fst items)
        = filter (\<lambda>k'. \<exists>m'. (k', m') \<in> set items \<and> P (k', m')) (map fst items)"
    using fresh by (intro filter_cong) (auto simp: km image_iff)
  have head: "(\<exists>m'. (k, m') \<in> set (km # items) \<and> P (k, m')) \<longleftrightarrow> P (k, m)"
    using fresh by (auto simp: km image_iff)
  show ?case
    using IH same head by (simp add: km)
qed

lemma enumerate_items_keys:
  "map fst (map (\<lambda>ic. (snd ic, g (fst ic))) (enumerate n keys)) = keys"
  by (simp add: comp_def)

lemmas prfs_eval =
  precision_recall_fscore_support_None_def precision_recall_fscore_support_avg_def
  unique_labels_def bincount_def tp_bins_def tp_sum_def pred_sum_arr_def true_sum_def
  prf_divide_def f_score_def np_average_def np_mean_def bind_err_def np_index_def
  sorted_reverse_def Let_def float64_f1_values

lemma scenario_per_class:
  "get_per_class_metrics [0, 0, 1, 1] [0, 1, 1, 1] [(''a'', 0), (''b'', 1)] =
     Inr [(''b'', \<lparr>precision = 2 / 3, recall = 1, f1 = 4 / 5, num_samples = PyFloat 2\<rparr>),
          (''a'', \<lparr>precision = 1, recall = 1 / 2, f1 = 2 / 3, num_samples = PyFloat 2\<rparr>)]"
  by (simp add: get_per_class_metrics_def prfs_eval)

lemma scenario_overall:
  "get_overall_metrics [0, 0, 1, 1] [0, 1, 1, 1] =
     Inr \<lparr>precision = 5 / 6, recall = 3 / 4, f1 = 11 / 15, num_samples = PyFloat 4\<rparr>"
  by (simp add: get_overall_metrics_def prfs_eval)

lemma scenario_counts:
  "spec_TP 0 [0, 0, 1, 1] [0, 1, 1, 1] = 1" "spec_FP 0 [0, 0, 1, 1] [0, 1, 1, 1] = 0"
  "spec_FN 0 [0, 0, 1, 1] [0, 1, 1, 1] = 1" "spec_TP 1 [0, 0, 1, 1] [0, 1, 1, 1] = 2"
  "spec_FP 1 [0, 0, 1, 1] [0, 1, 1, 1] = 1" "spec_FN 1 [0, 0, 1, 1] [0, 1, 1, 1] = 0"
  by (simp_all add: spec_TP_def spec_FP_def spec_FN_def)

lemma tie_per_class:
  "get_per_class_metrics [0, 1, 2, 2] [0, 1, 2, 0] [(''a'', 0), (''b'', 1), (''c'', 2)] =
     Inr [(''b'', \<lparr>precision = 1, recall = 1, f1 = 1, num_samples = PyFloat 1\<rparr>),
          (''a'', \<lparr>precision = 1 / 2, recall = 1, f1 = 2 / 3, num_samples = PyFloat 1\<rparr>),
          (''c'', \<lparr>precision = 1, recall = 1 / 2, f1 = 2 / 3, num_samples = PyFloat 2\<rparr>)]"
  by (simp add: get_per_class_metrics_def prfs_eval)

lemma swapped_values_per_class:
  "get_per_class_metrics [0, 0, 1, 1] [0, 1, 1, 1] [(''a'', 1), (''b'', 0)] =
     Inr [(''b'', \<lparr>precision = 2 / 3, recall = 1, f1 = 4 / 5, num_samples = PyFloat 2\<rparr>),
          (''a'', \<lparr>precision = 1, recall = 1 / 2, f1 = 2 / 3, num_samples = PyFloat 2\<rparr>)]"
  by (simp add: get_per_class_metrics_def prfs_eval)

text \<open>
  Claim C1 asks for one record for every class of the mapping, also for a class without
  ground-truth samples. The library call is made without \<^verbatim>\<open>labels\<close>, so a class that
  occurs neither in the truth nor in the prediction array has no entry in its arrays, and
  the loop over the mapping reads past their end: with two classes and data that hold only
  class 0, the call raises IndexError instead of returning a zero record for class "b".
  Once class 1 is predicted somewhere, class "b" has its zero record.
\<close>

theorem absent_class_index_error:
  "get_per_class_metrics [0, 0] [0, 0] [(''a'', 0), (''b'', 1)] = Inl IndexError
   \<and> get_per_class_metrics [0, 0] [0, 1] [(''a'', 0), (''b'', 1)] =
       Inr [(''a'', \<lparr>precision = 1, recall = 1 / 2, f1 = 2 / 3, num_samples = PyFloat 2\<rparr>),
            (''b'', \<lparr>precision = 0, recall = 0, f1 = 0, num_samples = PyFloat 0\<rparr>)]"
  by (simp add: get_per_class_metrics_def prfs_eval)

text \<open>
  The outputs of the call, for a class index mapping that is a dict (its keys are
  distinct). The call fails exactly when the arrays differ in length or fewer labels occur
  in the data than the mapping has classes. Every output it returns has exactly the keys of
  the mapping, each once; it is ordered by the stored float64 f1 descending; and the classes
  with the same stored f1 stand in the output in the order they have in the mapping.
\<close>

lemma per_class_output_keys_and_order:
  assumes "distinct (map fst class_to_index)"
  shows "(isl (get_per_class_metrics y_true y_pred class_to_index) \<longleftrightarrow>
            length y_true \<noteq> length y_pred
            \<or> length (unique_labels y_true y_pred) < length class_to_index)
       \<and> (\<forall>out. get_per_class_metrics y_true y_pred class_to_index = Inr out \<longrightarrow>
            set (map fst out) = set (map fst class_to_index)
          \<and> distinct (map fst out)
          \<and> length out = length class_to_index
          \<and> sorted_wrt (\<lambda>a b. float64_f1 (snd b) \<le> float64_f1 (snd a)) out
          \<and> (\<forall>v. map fst (filter (\<lambda>km. float64_f1 (snd km) = v) out)
                 = filter (\<lambda>k. \<exists>m. (k, m) \<in> set out \<and> float64_f1 m = v) (map fst class_to_index)))"
proof (intro conjI allI impI)
  show "isl (get_per_class_metrics y_true y_pred class_to_index) \<longleftrightarrow>
        length y_true \<noteq> length y_pred \<or> length (unique_labels y_true y_pred) < length class_to_index"
    using assms by (rule per_class_fails_iff)
next
  fix out assume out: "get_per_class_metrics y_true y_pred class_to_index = Inr out"
  from per_class_output[OF assms out] obtain metrics where
    o: "out = sorted_reverse (\<lambda>tag. float64_f1 (snd tag))
                 (map (\<lambda>ic. (snd ic, metric_at metrics (fst ic))) (enumerate 0 (map fst class_to_index)))"
    by blast
  define items where "items = map (\<lambda>ic. (snd ic, metric_at metrics (fst ic))) (enumerate 0 (map fst class_to_index))"
  have keys: "map fst items = map fst class_to_index"
    unfolding items_def by (rule enumerate_items_keys)
  have o': "out = sorted_reverse (\<lambda>tag. float64_f1 (snd tag)) items" using o items_def by simp
  have set_out: "set out = set items" unfolding o' by (rule sorted_reverse_set)
  show "set (map fst out) = set (map fst class_to_index)"
    using set_out keys by (metis set_map)
  show dist: "distinct (map fst out)"
    unfolding o' using assms keys by (simp add: sorted_reverse_distinct_keys)
  show "length out = length class_to_index"
    unfolding o' using keys by (metis sorted_reverse_length length_map)
  show "sorted_wrt (\<lambda>a b. float64_f1 (snd b) \<le> float64_f1 (snd a)) out"
    unfolding o' by (rule sorted_reverse_descending)
  fix v
  have "filter (\<lambda>km. float64_f1 (snd km) = v) out = filter (\<lambda>km. float64_f1 (snd km) = v) items"
    unfolding o' by (rule sorted_reverse_stable)
  then have "map fst (filter (\<lambda>km. float64_f1 (snd km) = v) out) = map fst (filter (\<lambda>km. float64_f1 (snd km) = v) items)"
    by simp
  also have "\<dots> = filter (\<lambda>k. \<exists>m. (k, m) \<in> set items \<and> float64_f1 (snd (k, m)) = v) (map fst items)"
    using assms keys by (intro map_fst_filter_distinct) simp
  finally show "map fst (filter (\<lambda>km. float64_f1 (snd km) = v) out)
        = filter (\<lambda>k. \<exists>m. (k, m) \<in> set out \<and> float64_f1 m = v) (map fst class_to_index)"
    using keys set_out by simp
qed


text \<open>
  The order follows the stored float64 and not the exact score: with truth
  [0,0,0,1,1,1,1,1], prediction [0,2,2,1,0,0,2,2] and the classes "b", "a", "c" in this
  order, the exact f1 of "b" and of "a" is 1/3 for both, the stored f1 of "a" is the larger
  float64, and "a" comes first.
\<close>

lemma per_class_float64_order:
  "get_per_class_metrics [0, 0, 0, 1, 1, 1, 1, 1] [0, 2, 2, 1, 0, 0, 2, 2]
     [(''b'', 0), (''a'', 1), (''c'', 2)] =
     Inr [(''a'', \<lparr>precision = 1, recall = 1 / 5, f1 = 1 / 3, num_samples = PyFloat 5\<rparr>),
          (''b'', \<lparr>precision = 1 / 3, recall = 1 / 3, f1 = 1 / 3, num_samples = PyFloat 3\<rparr>),
          (''c'', \<lparr>precision = 0, recall = 0, f1 = 0, num_samples = PyFloat 0\<rparr>)]"
  by (simp add: get_per_class_metrics_def prfs_eval)

text \<open>
  Claim C3 asks, for every class index mapping, that the keys of the output are exactly
  the keys of the mapping, ordered by f1 descending with a stable sort. The order holds of
  every output. The keys fail where a class is absent from the data: with three classes of which class
  1 occurs neither in the truth nor in the prediction, the library's arrays have two
  entries, the loop reads position 2 and the call raises IndexError, so no key is reported.
\<close>

theorem per_class_keys_missing_class:
  "get_per_class_metrics [0, 2, 2] [0, 2, 0] [(''a'', 0), (''b'', 1), (''c'', 2)]
     = Inl IndexError"
  by (simp add: get_per_class_metrics_def prfs_eval)

text \<open>
  Claim C6. The scenario with truth [0,0,1,1], prediction [0,1,1,1] and the classes "a" and
  "b": the counts of the two classes, their precision, recall and f1 (exact values, with
  2/3 within 0.001 of 0.667), the output order "b" before "a", and the overall record with
  num\_samples 4 whose scores are the per-class scores weighted by support 2 over N = 4.
\<close>

theorem scenario_two_classes:
  "\<exists>ma mb mo.
     get_per_class_metrics [0, 0, 1, 1] [0, 1, 1, 1] [(''a'', 0), (''b'', 1)]
       = Inr [(''b'', mb), (''a'', ma)]
   \<and> spec_TP 0 [0, 0, 1, 1] [0, 1, 1, 1] = 1 \<and> spec_FP 0 [0, 0, 1, 1] [0, 1, 1, 1] = 0
   \<and> spec_FN 0 [0, 0, 1, 1] [0, 1, 1, 1] = 1
   \<and> precision ma = 1 \<and> recall ma = 1 / 2 \<and> f1 ma = 2 / 3
   \<and> \<bar>f1 ma - 667 / 1000\<bar> < 1 / 1000
   \<and> spec_TP 1 [0, 0, 1, 1] [0, 1, 1, 1] = 2 \<and> spec_FP 1 [0, 0, 1, 1] [0, 1, 1, 1] = 1
   \<and> spec_FN 1 [0, 0, 1, 1] [0, 1, 1, 1] = 0
   \<and> precision mb = 2 / 3 \<and> recall mb = 1 \<and> f1 mb = 4 / 5
   \<and> \<bar>precision mb - 667 / 1000\<bar> < 1 / 1000
   \<and> get_overall_metrics [0, 0, 1, 1] [0, 1, 1, 1] = Inr mo
   \<and> num_samples mo = PyFloat 4
   \<and> num_samples ma = PyFloat 2 \<and> num_samples mb = PyFloat 2
   \<and> precision mo = 2 / 4 * precision ma + 2 / 4 * precision mb
   \<and> recall mo = 2 / 4 * recall ma + 2 / 4 * recall mb
   \<and> f1 mo = 2 / 4 * f1 ma + 2 / 4 * f1 mb"
  by (simp add: scenario_per_class scenario_overall scenario_counts)

text \<open>
  Claim C10. \<open>get_per_class_metrics\<close> reads only the key sequence of the class index
  mapping: two mappings with the same keys in the same order give the same result, whatever
  their integer values. In a returned output, the class at insertion position \<open>i\<close> of the
  mapping carries the record built from position \<open>i\<close> of the library's arrays.
\<close>

theorem per_class_ignores_index_values:
  assumes "map fst c1 = map fst c2"
  shows "get_per_class_metrics y_true y_pred c1 = get_per_class_metrics y_true y_pred c2
       \<and> (distinct (map fst c1) \<longrightarrow>
            (\<forall>metrics out i.
               precision_recall_fscore_support_None y_true y_pred = Inr metrics
               \<and> get_per_class_metrics y_true y_pred c1 = Inr out \<and> i < length c1 \<longrightarrow>
               map_of out (fst (c1 ! i)) = Some (metric_at metrics i)))"
proof (intro conjI impI allI)
  show "get_per_class_metrics y_true y_pred c1 = get_per_class_metrics y_true y_pred c2"
    using assms by (simp add: get_per_class_metrics_def)
next
  fix metrics out i
  assume d: "distinct (map fst c1)"
    and h: "precision_recall_fscore_support_None y_true y_pred = Inr metrics
            \<and> get_per_class_metrics y_true y_pred c1 = Inr out \<and> i < length c1"
  define items where "items = map (\<lambda>ic. (snd ic, metric_at metrics (fst ic))) (enumerate 0 (map fst c1))"
  have g: "get_per_class_metrics y_true y_pred c1 = Inr out" using h by simp
  from per_class_output[OF d g] obtain metrics' where
    m': "precision_recall_fscore_support_None y_true y_pred = Inr metrics'"
    and o': "out = sorted_reverse (\<lambda>tag. float64_f1 (snd tag))
                 (map (\<lambda>ic. (snd ic, metric_at metrics' (fst ic))) (enumerate 0 (map fst c1)))"
    by blast
  have "metrics' = metrics" using m' h by simp
  then have o: "out = sorted_reverse (\<lambda>tag. float64_f1 (snd tag)) items"
    using o' by (simp add: items_def)
  have keys: "map fst items = map fst c1"
    unfolding items_def by (rule enumerate_items_keys)
  have dist: "distinct (map fst out)"
    unfolding o using d keys by (simp add: sorted_reverse_distinct_keys)
  have "enumerate 0 (map fst c1) ! i = (i, fst (c1 ! i))"
    using h by (simp add: nth_enumerate_eq)
  then have "items ! i = (fst (c1 ! i), metric_at metrics i)"
    using h by (simp add: items_def)
  moreover have "i < length items" using h by (simp add: items_def)
  ultimately have "(fst (c1 ! i), metric_at metrics i) \<in> set items"
    by (metis nth_mem)
  then have "(fst (c1 ! i), metric_at metrics i) \<in> set out"
    unfolding o by (simp add: sorted_reverse_set)
  with dist show "map_of out (fst (c1 ! i)) = Some (metric_at metrics i)"
    by simp
qed

theorem per_class_ignores_index_values_witness:
  "map fst [(''a'', 0 :: int), (''b'', 1)] = map fst [(''a'', 1 :: int), (''b'', 0)]
   \<and> get_per_class_metrics [0, 0, 1, 1] [0, 1, 1, 1] [(''a'', 0), (''b'', 1)]
     = get_per_class_metrics [0, 0, 1, 1] [0, 1, 1, 1] [(''a'', 1), (''b'', 0)]
   \<and> get_per_class_metrics [0, 0, 1, 1] [0, 1, 1, 1] [(''a'', 1), (''b'', 0)] =
     Inr [(''b'', \<lparr>precision = 2 / 3, recall = 1, f1 = 4 / 5, num_samples = PyFloat 2\<rparr>),
          (''a'', \<lparr>precision = 1, recall = 1 / 2, f1 = 2 / 3, num_samples = PyFloat 2\<rparr>)]"
proof -
  have k: "map fst [(''a'', 0 :: int), (''b'', 1)] = map fst [(''a'', 1 :: int), (''b'', 0)]"
    by simp
  from per_class_ignores_index_values[OF k, of "[0, 0, 1, 1]" "[0, 1, 1, 1]"]
  have "get_per_class_metrics [0, 0, 1, 1] [0, 1, 1, 1] [(''a'', 0), (''b'', 1)]
     = get_per_class_metrics [0, 0, 1, 1] [0, 1, 1, 1] [(''a'', 1), (''b'', 0)]"
    by (rule conjunct1)
  with k swapped_values_per_class show ?thesis by simp
qed

subsection \<open>Micro averaging\<close>

lemma masked_length:
  "length ys = length msk \<Longrightarrow> length (masked ys msk) = sum_mask msk"
proof (induction ys msk rule: list_induct2)
  case Nil
  show ?case by (simp add: masked_def sum_mask_def)
next
  case (Cons y ys b msk)
  then show ?case by (simp add: masked_def sum_mask_def)
qed

lemma bool_index_masked:
  "length msk = length ys \<Longrightarrow> bool_index ys msk = Inr (masked ys msk)"
  by (simp add: bool_index_def masked_def)

lemma bool_index_Inr:
  "bool_index ys msk = Inr zs \<Longrightarrow> length msk = length ys \<and> zs = masked ys msk"
  by (auto simp: bool_index_def masked_def split: if_splits)

lemma sum_mask_map: "sum_mask (map sf df) = 0 \<longleftrightarrow> (\<forall>x \<in> set df. \<not> sf x)"
  by (simp add: sum_mask_def filter_empty_conv)

lemma spec_TP_count: "spec_TP c ts ps = count_list (tp_bins ts ps) c"
proof (induction ts arbitrary: ps)
  case Nil
  show ?case by (simp add: spec_TP_def tp_bins_Nil)
next
  case (Cons t ts)
  show ?case
  proof (cases ps)
    case Nil
    then show ?thesis by (simp add: spec_TP_def tp_bins_Nil)
  next
    case (Cons p ps')
    then show ?thesis using Cons.IH[of ps']
      by (auto simp: spec_TP_def tp_bins_Cons)
  qed
qed

lemma spec_TP_FP: "length ts = length ps \<Longrightarrow> spec_TP c ts ps + spec_FP c ts ps = count_list ps c"
  by (induction ts ps rule: list_induct2) (auto simp: spec_TP_def spec_FP_def)

lemma spec_TP_FN: "length ts = length ps \<Longrightarrow> spec_TP c ts ps + spec_FN c ts ps = count_list ts c"
  by (induction ts ps rule: list_induct2) (auto simp: spec_TP_def spec_FN_def)

lemma tp_bins_subset: "set (tp_bins ts ps) \<subseteq> set ts"
  by (auto simp: tp_bins_def dest: set_zip_leftD)

lemma sum_counts_classes:
  assumes "set ys \<subseteq> set ts \<union> set ps"
  shows "sum_list (map (count_list ys) (spec_classes ts ps)) = length ys"
proof -
  have "sum_list (map (count_list ys) (spec_classes ts ps)) = sum (count_list ys) (set (spec_classes ts ps))"
    by (rule sum_list_distinct_conv_sum_set) (simp add: spec_classes_def)
  also have "\<dots> = length ys"
    using assms by (intro sum_count_set) (simp_all add: spec_classes_def)
  finally show ?thesis .
qed

lemma pooled_TP: "spec_pooled spec_TP ts ps = length (tp_bins ts ps)"
proof -
  have "set (tp_bins ts ps) \<subseteq> set ts \<union> set ps" using tp_bins_subset by fastforce
  then show ?thesis
    by (simp add: spec_pooled_def spec_TP_count sum_counts_classes)
qed

lemma pooled_TP_FP:
  assumes "length ts = length ps"
  shows "spec_pooled spec_TP ts ps + spec_pooled spec_FP ts ps = length ps"
proof -
  have "spec_pooled spec_TP ts ps + spec_pooled spec_FP ts ps
        = sum_list (map (\<lambda>c. spec_TP c ts ps + spec_FP c ts ps) (spec_classes ts ps))"
    by (simp add: spec_pooled_def sum_list_addf)
  also have "\<dots> = sum_list (map (count_list ps) (spec_classes ts ps))"
    using assms by (simp add: spec_TP_FP)
  also have "\<dots> = length ps"
    by (rule sum_counts_classes) simp
  finally show ?thesis .
qed

lemma pooled_TP_FN:
  assumes "length ts = length ps"
  shows "spec_pooled spec_TP ts ps + spec_pooled spec_FN ts ps = length ts"
proof -
  have "spec_pooled spec_TP ts ps + spec_pooled spec_FN ts ps
        = sum_list (map (\<lambda>c. spec_TP c ts ps + spec_FN c ts ps) (spec_classes ts ps))"
    by (simp add: spec_pooled_def sum_list_addf)
  also have "\<dots> = sum_list (map (count_list ts) (spec_classes ts ps))"
    using assms by (simp add: spec_TP_FN)
  also have "\<dots> = length ts"
    by (rule sum_counts_classes) simp
  finally show ?thesis .
qed

lemma sum_tp_sum: "sum_list (tp_sum ts ps) = length (tp_bins ts ps)"
proof -
  have "set (tp_bins ts ps) \<subseteq> set (unique_labels ts ps)"
    using tp_bins_subset by (fastforce simp: unique_labels_set)
  then show ?thesis
    by (simp add: tp_sum_def sum_bincount unique_labels_distinct)
qed

lemma spec_ratio_nonneg: "0 \<le> spec_ratio n d"
  by (simp add: spec_ratio_def)

lemma harmonic_mean_f_score:
  assumes "0 \<le> p" "0 \<le> r"
  shows "(1 + 1) * p * r / (if p + r = 0 then 1 else p + r) = spec_harmonic_mean p r"
proof (cases "p + r = 0")
  case True
  then have "p = 0 \<and> r = 0" using assms by (simp add: add_nonneg_eq_0_iff)
  then show ?thesis by (simp add: spec_harmonic_mean_def)
next
  case False
  then have "\<not> (p = 0 \<and> r = 0)" by auto
  then show ?thesis using False by (simp add: spec_harmonic_mean_def)
qed

lemma micro_value:
  assumes "length ts = length ps"
  shows "precision_recall_fscore_support_avg Micro ts ps =
           Inr (spec_micro_precision ts ps, spec_micro_recall ts ps, spec_micro_f1 ts ps)"
proof -
  let ?tp = "length (tp_bins ts ps)"
  have p: "spec_micro_precision ts ps = spec_ratio ?tp (length ps)"
    using pooled_TP_FP[OF assms] by (simp add: spec_micro_precision_def pooled_TP)
  have r: "spec_micro_recall ts ps = spec_ratio ?tp (length ts)"
    using pooled_TP_FN[OF assms] by (simp add: spec_micro_recall_def pooled_TP)
  have f: "(1 + 1) * spec_ratio ?tp (length ps) * spec_ratio ?tp (length ts)
             / (if spec_ratio ?tp (length ps) + spec_ratio ?tp (length ts) = 0 then 1
                else spec_ratio ?tp (length ps) + spec_ratio ?tp (length ts))
           = spec_micro_f1 ts ps"
    unfolding spec_micro_f1_def p r
    by (rule harmonic_mean_f_score) (rule spec_ratio_nonneg)+
  have "precision_recall_fscore_support_avg Micro ts ps =
          Inr (spec_ratio ?tp (length ps), spec_ratio ?tp (length ts),
               (1 + 1) * spec_ratio ?tp (length ps) * spec_ratio ?tp (length ts)
                / (if spec_ratio ?tp (length ps) + spec_ratio ?tp (length ts) = 0 then 1
                   else spec_ratio ?tp (length ps) + spec_ratio ?tp (length ts)))"
    using assms
    by (simp add: precision_recall_fscore_support_avg_def Let_def sum_tp_sum sum_true_sum
        sum_pred_sum prf_divide_def f_score_def np_mean_def spec_ratio_def
        del: sum_list_eq_0_iff)
  then show ?thesis by (simp only: p r f)
qed

subsection \<open>The slice loop\<close>

lemma slice_step:
  assumes "length msk = length y_true" "length y_pred = length y_true" "sum_mask msk \<noteq> 0"
  shows "slice_loop y_true y_pred ((name, msk) # rest) d =
         slice_loop y_true y_pred rest (dict_set d name (spec_slice_record y_true y_pred msk))"
proof -
  have len: "length (masked y_true msk) = length (masked y_pred msk)"
    using assms by (simp add: masked_length)
  show ?thesis
    using assms
    by (simp add: bind_err_def bool_index_masked micro_value[OF len] spec_slice_record_def
        masked_length)
qed

lemma slice_skip:
  "sum_mask msk = 0 \<Longrightarrow>
   slice_loop y_true y_pred ((name, msk) # rest) d = slice_loop y_true y_pred rest d"
  by simp

lemma slice_step_Inr:
  assumes "slice_loop y_true y_pred ((name, msk) # rest) d = Inr out" "sum_mask msk \<noteq> 0"
  shows "length msk = length y_true \<and> length y_pred = length y_true"
proof -
  from assms obtain yt yp where "bool_index y_true msk = Inr yt" "bool_index y_pred msk = Inr yp"
    by (auto simp: bind_err_def split: sum.splits)
  then have "length msk = length y_true" "length msk = length y_pred"
    by (auto dest: bool_index_Inr)
  then show ?thesis by simp
qed

lemma slice_step_out:
  assumes "slice_loop y_true y_pred ((name, msk) # rest) d = Inr out" "sum_mask msk \<noteq> 0"
  shows "slice_loop y_true y_pred rest (dict_set d name (spec_slice_record y_true y_pred msk)) = Inr out"
proof -
  have "length msk = length y_true" "length y_pred = length y_true"
    using slice_step_Inr[OF assms] by simp_all
  from slice_step[OF this assms(2)] assms(1) show ?thesis by simp
qed

lemma slice_loop_returns:
  assumes "length y_pred = length y_true"
    and "\<forall>nm \<in> set slices. length (snd nm) = length y_true"
  shows "\<exists>out. slice_loop y_true y_pred slices d = Inr out"
  using assms(2)
proof (induction slices arbitrary: d)
  case Nil
  show ?case by simp
next
  case (Cons nm slices)
  obtain name msk where nm: "nm = (name, msk)" by (cases nm)
  have len: "length msk = length y_true" using Cons.prems nm by simp
  have rest: "\<forall>nm \<in> set slices. length (snd nm) = length y_true" using Cons.prems by simp
  show ?case
  proof (cases "sum_mask msk = 0")
    case True
    then show ?thesis using Cons.IH[OF rest] by (simp add: nm)
  next
    case False
    show ?thesis
      unfolding nm slice_step[OF len assms(1) False] using Cons.IH[OF rest] by blast
  qed
qed

lemma slice_loop_untouched:
  assumes "slice_loop y_true y_pred slices d = Inr out" "name \<notin> fst ` set slices"
  shows "map_of out name = map_of d name"
  using assms
proof (induction slices arbitrary: d)
  case Nil
  then show ?case by simp
next
  case (Cons nm slices)
  obtain n msk where nm: "nm = (n, msk)" by (cases nm)
  have ne: "n \<noteq> name" and rest: "name \<notin> fst ` set slices"
    using Cons.prems(2) nm by auto
  show ?case
  proof (cases "sum_mask msk = 0")
    case True
    then show ?thesis using Cons.IH[OF _ rest] Cons.prems(1) by (simp add: nm)
  next
    case False
    have "slice_loop y_true y_pred slices (dict_set d n (spec_slice_record y_true y_pred msk)) = Inr out"
      using Cons.prems(1) False unfolding nm by (rule slice_step_out)
    from Cons.IH[OF this rest] show ?thesis using ne by (simp add: map_of_dict_set)
  qed
qed

lemma slice_loop_entry:
  assumes "slice_loop y_true y_pred slices d = Inr out" "distinct (map fst slices)"
    and "(name, msk) \<in> set slices" "sum_mask msk \<noteq> 0"
  shows "map_of out name = Some (spec_slice_record y_true y_pred msk)"
  using assms
proof (induction slices arbitrary: d)
  case Nil
  then show ?case by simp
next
  case (Cons nm slices)
  obtain n k where nm: "nm = (n, k)" by (cases nm)
  have fresh: "n \<notin> fst ` set slices" and dist: "distinct (map fst slices)"
    using Cons.prems(2) nm by auto
  show ?case
  proof (cases "(name, msk) = (n, k)")
    case True
    then have nk: "n = name" "k = msk" by simp_all
    have "slice_loop y_true y_pred slices (dict_set d name (spec_slice_record y_true y_pred msk)) = Inr out"
      using Cons.prems(1,4)  unfolding nm nk by (rule slice_step_out)
    from slice_loop_untouched[OF this] fresh show ?thesis
      by (simp add: nk map_of_dict_set)
  next
    case False
    then have mem: "(name, msk) \<in> set slices" using Cons.prems(3) nm by auto
    show ?thesis
    proof (cases "sum_mask k = 0")
      case True
      then have "slice_loop y_true y_pred slices d = Inr out"
        using Cons.prems(1) by (simp add: nm)
      from Cons.IH[OF this dist mem Cons.prems(4)] show ?thesis .
    next
      case nz: False
      have "slice_loop y_true y_pred slices (dict_set d n (spec_slice_record y_true y_pred k)) = Inr out"
        using Cons.prems(1) nz unfolding nm by (rule slice_step_out)
      from Cons.IH[OF this dist mem Cons.prems(4)] show ?thesis .
    qed
  qed
qed

lemma slice_loop_keys:
  assumes "slice_loop y_true y_pred slices d = Inr out"
  shows "fst ` set out = fst ` set d \<union> {n. \<exists>msk. (n, msk) \<in> set slices \<and> sum_mask msk \<noteq> 0}"
  using assms
proof (induction slices arbitrary: d)
  case Nil
  then show ?case by simp
next
  case (Cons nm slices)
  obtain n k where nm: "nm = (n, k)" by (cases nm)
  show ?case
  proof (cases "sum_mask k = 0")
    case True
    then have "slice_loop y_true y_pred slices d = Inr out"
      using Cons.prems by (simp add: nm)
    from Cons.IH[OF this] True show ?thesis by (auto simp: nm)
  next
    case False
    have "slice_loop y_true y_pred slices (dict_set d n (spec_slice_record y_true y_pred k)) = Inr out"
      using Cons.prems False unfolding nm by (rule slice_step_out)
    from Cons.IH[OF this] False show ?thesis by (auto simp: nm dict_set_keys)
  qed
qed

lemma dict_set_subset: "set (dict_set d k v) \<subseteq> insert (k, v) (set d)"
proof (induction d)
  case Nil
  show ?case by simp
next
  case (Cons kv d)
  obtain k' v' where kv: "kv = (k', v')" by (cases kv)
  show ?case
  proof (cases "k' = k")
    case True
    then show ?thesis by (auto simp: kv)
  next
    case False
    then show ?thesis using Cons.IH by (auto simp: kv)
  qed
qed

lemma slice_loop_positive:
  assumes "slice_loop y_true y_pred slices d = Inr out" "\<forall>km \<in> set d. positive_count (snd km)"
  shows "\<forall>km \<in> set out. positive_count (snd km)"
  using assms
proof (induction slices arbitrary: d)
  case Nil
  then show ?case by simp
next
  case (Cons nm slices)
  obtain n k where nm: "nm = (n, k)" by (cases nm)
  show ?case
  proof (cases "sum_mask k = 0")
    case True
    then have "slice_loop y_true y_pred slices d = Inr out"
      using Cons.prems(1) by (simp add: nm)
    from Cons.IH[OF this Cons.prems(2)] show ?thesis .
  next
    case False
    have step: "slice_loop y_true y_pred slices (dict_set d n (spec_slice_record y_true y_pred k)) = Inr out"
      using Cons.prems(1) False unfolding nm by (rule slice_step_out)
    have new: "positive_count (spec_slice_record y_true y_pred k)"
      using False by (simp add: positive_count_def spec_slice_record_def)
    have "\<forall>km \<in> set (dict_set d n (spec_slice_record y_true y_pred k)). positive_count (snd km)"
      using dict_set_subset[of d n "spec_slice_record y_true y_pred k"] Cons.prems(2) new by auto
    from Cons.IH[OF step this] show ?thesis .
  qed
qed

lemma slice_columns_names: "map fst (slice_columns sfs df) = map fst sfs"
  by (simp add: slice_columns_def comp_def case_prod_beta)

lemma slice_columns_mem:
  "(name, msk) \<in> set (slice_columns sfs df) \<longleftrightarrow> (\<exists>sf. (name, sf) \<in> set sfs \<and> msk = map sf df)"
  by (auto simp: slice_columns_def)

lemma slice_columns_lengths: "\<forall>nm \<in> set (slice_columns sfs df). length (snd nm) = length df"
  by (auto simp: slice_columns_def)

lemma applier_apply_rows: "df \<noteq> [] \<Longrightarrow> applier_apply sfs df = Inr (slice_columns sfs df)"
  by (simp add: applier_apply_def)

lemma applier_apply_Inr:
  "applier_apply sfs df = Inr slices \<Longrightarrow> df \<noteq> [] \<and> slices = slice_columns sfs df"
  by (auto simp: applier_apply_def split: if_splits)

lemma get_slice_metrics_rows:
  "df \<noteq> [] \<Longrightarrow>
   get_slice_metrics y_true y_pred df =
     slice_loop y_true y_pred (slice_columns slicing_functions df) []"
  by (simp add: get_slice_metrics_def applier_apply_rows bind_err_def)

lemma get_slice_metrics_no_rows: "get_slice_metrics y_true y_pred [] = Inl ValueError"
  by (simp add: get_slice_metrics_def applier_apply_def bind_err_def)

lemma slicing_functions_distinct: "distinct (map fst slicing_functions)"
  by (simp add: slicing_functions_def)

lemmas slice_eval =
  get_slice_metrics_def applier_apply_def slice_columns_def slicing_functions_def
  nlp_llm_def llm_terms_def short_text_def str_split_def isspace_def lower_def sum_mask_def bool_index_def
  precision_recall_fscore_support_avg_def unique_labels_def bincount_def tp_bins_def
  tp_sum_def pred_sum_arr_def true_sum_def prf_divide_def f_score_def np_mean_def
  bind_err_def Let_def

lemma three_rows_slices:
  "get_slice_metrics [0, 1, 2] [0, 0, 2]
     [\<lparr>ex_text = ''a b c'', ex_tag = ''mlops''\<rparr>,
      \<lparr>ex_text = ''d e'', ex_tag = ''mlops''\<rparr>,
      \<lparr>ex_text = ''f'', ex_tag = ''mlops''\<rparr>]
   = Inr [(''short_text'',
           \<lparr>precision = 2 / 3, recall = 2 / 3, f1 = 2 / 3, num_samples = PyInt 3\<rparr>)]"
  by (simp add: slice_eval)

lemma short_abc: "short_text \<lparr>ex_text = ''a b c'', ex_tag = g\<rparr>"
  by (simp add: short_text_def str_split_def isspace_def)

lemma no_slice_rows:
  "slice_loop [0, 1] [0, 0]
     (slice_columns slicing_functions
        [\<lparr>ex_text = ''a b c d e f g h i'', ex_tag = ''mlops''\<rparr>,
         \<lparr>ex_text = ''a b c'', ex_tag = ''mlops''\<rparr>]) []
   = Inr [(''short_text'',
           \<lparr>precision = 0, recall = 0, f1 = 0, num_samples = PyInt 1\<rparr>)]"
  by (simp add: slice_eval)

text \<open>
  Claim C4. Let the data frame, the truth array and the prediction array have the same
  length. For each of the slicing functions of \<open>get_slice_metrics\<close> whose mask over the
  frame has a true entry, the call returns an output whose entry for that slice holds the
  micro-averaged scores of the masked truth and prediction (true positives, false positives
  and false negatives pooled over all classes before one precision, recall and harmonic
  mean are computed) and, as num\_samples, the number of true entries of the mask as a
  plain integer.
\<close>

theorem slice_metrics_micro:
  assumes "length df = length y_true" and "length y_pred = length y_true"
    and "(name, sf) \<in> set slicing_functions" and "\<exists>x \<in> set df. sf x"
  shows "\<exists>out m. get_slice_metrics y_true y_pred df = Inr out
           \<and> map_of out name = Some m
           \<and> precision m = spec_micro_precision (masked y_true (map sf df)) (masked y_pred (map sf df))
           \<and> recall m = spec_micro_recall (masked y_true (map sf df)) (masked y_pred (map sf df))
           \<and> f1 m = spec_micro_f1 (masked y_true (map sf df)) (masked y_pred (map sf df))
           \<and> num_samples m = PyInt (int (sum_mask (map sf df)))"
proof -
  have rows: "df \<noteq> []" using assms(4) by auto
  have "\<forall>nm \<in> set (slice_columns slicing_functions df). length (snd nm) = length y_true"
    using slice_columns_lengths[of slicing_functions df] assms(1) by simp
  from slice_loop_returns[OF assms(2) this, of "[]"] obtain out where
    out: "slice_loop y_true y_pred (slice_columns slicing_functions df) [] = Inr out" by blast
  have mem: "(name, map sf df) \<in> set (slice_columns slicing_functions df)"
    using assms(3) by (auto simp: slice_columns_mem)
  have nz: "sum_mask (map sf df) \<noteq> 0" using assms(4) by (simp add: sum_mask_map)
  have dist: "distinct (map fst (slice_columns slicing_functions df))"
    by (simp add: slice_columns_names slicing_functions_distinct)
  from slice_loop_entry[OF out dist mem nz]
  have "map_of out name = Some (spec_slice_record y_true y_pred (map sf df))" .
  then show ?thesis using out
    by (simp add: get_slice_metrics_rows[OF rows] spec_slice_record_def)
qed

theorem slice_metrics_micro_witness:
  "length [\<lparr>ex_text = ''a b c'', ex_tag = ''mlops''\<rparr>,
           \<lparr>ex_text = ''d e'', ex_tag = ''mlops''\<rparr>,
           \<lparr>ex_text = ''f'', ex_tag = ''mlops''\<rparr>] = length [0, 1, 2 :: int]
   \<and> length [0, 0, 2 :: int] = length [0, 1, 2 :: int]
   \<and> (''short_text'', short_text) \<in> set slicing_functions
   \<and> short_text \<lparr>ex_text = ''a b c'', ex_tag = ''mlops''\<rparr>
   \<and> (\<exists>out m. get_slice_metrics [0, 1, 2] [0, 0, 2]
                  [\<lparr>ex_text = ''a b c'', ex_tag = ''mlops''\<rparr>,
                   \<lparr>ex_text = ''d e'', ex_tag = ''mlops''\<rparr>,
                   \<lparr>ex_text = ''f'', ex_tag = ''mlops''\<rparr>] = Inr out
          \<and> map_of out ''short_text'' = Some m
          \<and> precision m = 2 / 3 \<and> recall m = 2 / 3 \<and> f1 m = 2 / 3
          \<and> num_samples m = PyInt 3)"
proof -
  let ?df = "[\<lparr>ex_text = ''a b c'', ex_tag = ''mlops''\<rparr>,
              \<lparr>ex_text = ''d e'', ex_tag = ''mlops''\<rparr>,
              \<lparr>ex_text = ''f'', ex_tag = ''mlops''\<rparr>]"
  have h1: "length ?df = length [0, 1, 2 :: int]" by simp
  have h2: "length [0, 0, 2 :: int] = length [0, 1, 2 :: int]" by simp
  have h3: "(''short_text'', short_text) \<in> set slicing_functions"
    by (simp add: slicing_functions_def)
  have s: "short_text \<lparr>ex_text = ''a b c'', ex_tag = ''mlops''\<rparr>" by (rule short_abc)
  then have h4: "\<exists>x \<in> set ?df. short_text x" by simp
  from slice_metrics_micro[OF h1 h2 h3 h4] obtain out m where
    o: "get_slice_metrics [0, 1, 2] [0, 0, 2] ?df = Inr out"
    and m: "map_of out ''short_text'' = Some m"
    and n: "num_samples m = PyInt (int (sum_mask (map short_text ?df)))"
    by blast
  have "m = \<lparr>precision = 2 / 3, recall = 2 / 3, f1 = 2 / 3, num_samples = PyInt 3\<rparr>"
    using o m by (auto simp: three_rows_slices)
  then show ?thesis using h1 h2 h3 s o m by simp
qed

text \<open>
  Claim C5. For every list of named slice predicates with distinct names, in every output
  that the slice loop returns on the applied predicates, a predicate that is false on every
  row of the frame has no key, and every entry present has a positive integer
  num\_samples. \<open>get_slice_metrics\<close> is this loop for the list \<open>slicing_functions\<close>; it
  returns an output whenever the frame has a row and frame, truth and prediction have the
  same length.
\<close>

theorem slice_metrics_omits_empty:
  assumes "distinct (map fst sfs)"
  shows "get_slice_metrics y_true y_pred df =
           bind_err (applier_apply slicing_functions df) (\<lambda>slices.
             slice_loop y_true y_pred slices [])
       \<and> (df \<noteq> [] \<and> length df = length y_true \<and> length y_pred = length y_true \<longrightarrow>
            \<not> isl (get_slice_metrics y_true y_pred df))
       \<and> (\<forall>slices out.
            applier_apply sfs df = Inr slices \<and> slice_loop y_true y_pred slices [] = Inr out \<longrightarrow>
            (\<forall>nsf \<in> set sfs. (\<forall>x \<in> set df. \<not> snd nsf x) \<longrightarrow> fst nsf \<notin> fst ` set out)
          \<and> (\<forall>km \<in> set out. \<exists>n. num_samples (snd km) = PyInt n \<and> 0 < n))"
proof (intro conjI allI impI ballI)
  show "get_slice_metrics y_true y_pred df =
          bind_err (applier_apply slicing_functions df) (\<lambda>slices.
            slice_loop y_true y_pred slices [])"
    by (simp add: get_slice_metrics_def)
next
  assume h: "df \<noteq> [] \<and> length df = length y_true \<and> length y_pred = length y_true"
  then have "length y_pred = length y_true"
    and "\<forall>nm \<in> set (slice_columns slicing_functions df). length (snd nm) = length y_true"
    using slice_columns_lengths[of slicing_functions df] by simp_all
  from slice_loop_returns[OF this, of "[]"] h
  show "\<not> isl (get_slice_metrics y_true y_pred df)"
    by (auto simp: get_slice_metrics_rows)
next
  fix slices out nsf
  assume a: "applier_apply sfs df = Inr slices \<and> slice_loop y_true y_pred slices [] = Inr out"
    and nsf: "nsf \<in> set sfs" and none: "\<forall>x \<in> set df. \<not> snd nsf x"
  have cols: "slices = slice_columns sfs df" using a by (auto dest: applier_apply_Inr)
  have out: "slice_loop y_true y_pred slices [] = Inr out" using a by simp
  obtain name sf where eq: "nsf = (name, sf)" by (cases nsf)
  have keys: "fst ` set out = {n. \<exists>msk. (n, msk) \<in> set slices \<and> sum_mask msk \<noteq> 0}"
    using slice_loop_keys[OF out] by simp
  show "fst nsf \<notin> fst ` set out"
  proof
    assume "fst nsf \<in> fst ` set out"
    then obtain msk where m: "(name, msk) \<in> set (slice_columns sfs df)" and nz: "sum_mask msk \<noteq> 0"
      using keys eq cols by auto
    then obtain sf' where sf': "(name, sf') \<in> set sfs" and msk: "msk = map sf' df"
      by (auto simp: slice_columns_mem)
    have "sf' = sf"
      using assms sf' nsf eq by (metis eq_key_imp_eq_value)
    then have "sum_mask msk = 0" using none eq msk by (simp add: sum_mask_map)
    with nz show False by simp
  qed
next
  fix slices out km
  assume a: "applier_apply sfs df = Inr slices \<and> slice_loop y_true y_pred slices [] = Inr out"
    and km: "km \<in> set out"
  have out: "slice_loop y_true y_pred slices [] = Inr out" using a by simp
  have "\<forall>km \<in> set out. positive_count (snd km)"
    using slice_loop_positive[OF out] by simp
  then have "positive_count (snd km)" using km by blast
  then show "\<exists>n. num_samples (snd km) = PyInt n \<and> 0 < n"
    by (auto simp: positive_count_def split: number.splits)
qed

theorem slice_metrics_omits_empty_witness:
  "distinct (map fst slicing_functions)
   \<and> (''nlp_llm'', nlp_llm) \<in> set slicing_functions
   \<and> \<not> nlp_llm \<lparr>ex_text = ''a b c d e f g h i'', ex_tag = ''mlops''\<rparr>
   \<and> \<not> nlp_llm \<lparr>ex_text = ''a b c'', ex_tag = ''mlops''\<rparr>
   \<and> get_slice_metrics [0, 1] [0, 0]
        [\<lparr>ex_text = ''a b c d e f g h i'', ex_tag = ''mlops''\<rparr>,
         \<lparr>ex_text = ''a b c'', ex_tag = ''mlops''\<rparr>]
       = Inr [(''short_text'',
               \<lparr>precision = 0, recall = 0, f1 = 0, num_samples = PyInt 1\<rparr>)]
   \<and> ''nlp_llm'' \<notin> fst ` set [(''short_text'',
               \<lparr>precision = 0 :: rat, recall = 0 :: rat, f1 = 0 :: rat, num_samples = PyInt 1\<rparr>)]
   \<and> (\<exists>n. num_samples \<lparr>precision = 0 :: rat, recall = 0 :: rat, f1 = 0 :: rat,
                          num_samples = PyInt 1\<rparr> = PyInt n \<and> 0 < n)"
proof -
  let ?df = "[\<lparr>ex_text = ''a b c d e f g h i'', ex_tag = ''mlops''\<rparr>,
              \<lparr>ex_text = ''a b c'', ex_tag = ''mlops''\<rparr>]"
  let ?out = "[(''short_text'',
               \<lparr>precision = 0 :: rat, recall = 0 :: rat, f1 = 0 :: rat, num_samples = PyInt 1\<rparr>)]"
  have d: "distinct (map fst slicing_functions)" by (rule slicing_functions_distinct)
  have mem: "(''nlp_llm'', nlp_llm) \<in> set slicing_functions"
    by (simp add: slicing_functions_def)
  have n1: "\<not> nlp_llm \<lparr>ex_text = ''a b c d e f g h i'', ex_tag = ''mlops''\<rparr>"
    and n2: "\<not> nlp_llm \<lparr>ex_text = ''a b c'', ex_tag = ''mlops''\<rparr>"
    by (simp_all add: nlp_llm_def)
  have none: "\<forall>x \<in> set ?df. \<not> snd (''nlp_llm'', nlp_llm) x" using n1 n2 by simp
  have ap: "applier_apply slicing_functions ?df = Inr (slice_columns slicing_functions ?df)"
    by (rule applier_apply_rows) simp
  note t = slice_metrics_omits_empty[OF d, where df = ?df and y_true = "[0, 1]" and y_pred = "[0, 0]"]
  from t ap no_slice_rows mem none have k: "fst (''nlp_llm'', nlp_llm) \<notin> fst ` set ?out" by blast
  from t ap no_slice_rows have p: "\<exists>n. num_samples (snd (hd ?out)) = PyInt n \<and> 0 < n"
    by (metis list.set_intros(1) list.sel(1))
  have g: "get_slice_metrics [0, 1] [0, 0] ?df = Inr ?out"
    using no_slice_rows by (simp add: get_slice_metrics_rows)
  show ?thesis using d mem n1 n2 g k p by simp
qed

subsection \<open>The slicing functions\<close>

lemma str_in_sublist: "str_in s t = sublist s t"
  by (induction t) (simp_all add: sublist_Cons_right)

lemma str_in_iff: "str_in s t \<longleftrightarrow> spec_contains t s"
  by (simp add: str_in_sublist sublist_def spec_contains_def)

lemma lower_append: "lower (a @ b) = lower a @ lower b"
  by (simp add: lower_def)

lemma str_in_lower_iff: "str_in (lower s) (lower t) \<longleftrightarrow> spec_contains_ci t s"
proof
  assume "str_in (lower s) (lower t)"
  then obtain pre post where "lower t = pre @ lower s @ post"
    by (auto simp: str_in_iff spec_contains_def)
  then have "map lower_char t = pre @ (lower s @ post)" by (simp add: lower_def)
  then have "\<exists>us vs. t = us @ vs \<and> pre = map lower_char us \<and> lower s @ post = map lower_char vs"
    by (simp only: map_eq_append_conv)
  then obtain us vs where t: "t = us @ vs" and v: "map lower_char vs = lower s @ post"
    by auto
  from v have "\<exists>w post'. vs = w @ post' \<and> lower s = map lower_char w \<and> post = map lower_char post'"
    by (simp only: map_eq_append_conv)
  then obtain w post' where vs: "vs = w @ post'" and w: "map lower_char w = lower s"
    by auto
  show "spec_contains_ci t s"
    unfolding spec_contains_ci_def using t vs w by (auto simp: lower_def)
next
  assume "spec_contains_ci t s"
  then obtain pre w post where "t = pre @ w @ post" "lower w = lower s"
    by (auto simp: spec_contains_ci_def)
  then have "lower t = lower pre @ lower s @ lower post" by (simp add: lower_append)
  then show "str_in (lower s) (lower t)"
    by (auto simp: str_in_iff spec_contains_def)
qed

lemma bert_example:
  "nlp_llm \<lparr>ex_text = ''A new BERT model'', ex_tag = ''natural-language-processing''\<rparr>"
  by code_simp

lemma vision_example:
  "\<not> nlp_llm \<lparr>ex_text = ''A new BERT model'', ex_tag = ''computer-vision''\<rparr>"
  by (simp add: nlp_llm_def)

text \<open>
  Claim C7. \<open>nlp_llm\<close> is true exactly when the tag contains
  "natural-language-processing" and the text contains, up to the case of the letters, one
  of the terms "transformer", "llm", "bert"; it is true on the tag
  "natural-language-processing" with the text "A new BERT model".
\<close>

theorem nlp_llm_iff:
  "(nlp_llm x \<longleftrightarrow>
      spec_contains (ex_tag x) ''natural-language-processing''
      \<and> (\<exists>s \<in> {''transformer'', ''llm'', ''bert''}. spec_contains_ci (ex_text x) s))
   \<and> nlp_llm \<lparr>ex_text = ''A new BERT model'', ex_tag = ''natural-language-processing''\<rparr>"
proof
  show "nlp_llm x \<longleftrightarrow>
      spec_contains (ex_tag x) ''natural-language-processing''
      \<and> (\<exists>s \<in> {''transformer'', ''llm'', ''bert''}. spec_contains_ci (ex_text x) s)"
    by (simp add: nlp_llm_def llm_terms_def str_in_lower_iff) (simp add: str_in_iff)
  show "nlp_llm \<lparr>ex_text = ''A new BERT model'', ex_tag = ''natural-language-processing''\<rparr>"
    by (rule bert_example)
qed

theorem nlp_llm_iff_witness:
  "spec_contains ''natural-language-processing'' ''natural-language-processing''
   \<and> (\<exists>s \<in> {''transformer'', ''llm'', ''bert''}. spec_contains_ci ''A new BERT model'' s)
   \<and> \<not> spec_contains ''computer-vision'' ''natural-language-processing''"
proof -
  have a: "spec_contains (ex_tag \<lparr>ex_text = ''A new BERT model'', ex_tag = ''natural-language-processing''\<rparr>)
             ''natural-language-processing''
        \<and> (\<exists>s \<in> {''transformer'', ''llm'', ''bert''}.
             spec_contains_ci (ex_text \<lparr>ex_text = ''A new BERT model'', ex_tag = ''natural-language-processing''\<rparr>) s)"
    using nlp_llm_iff[of "\<lparr>ex_text = ''A new BERT model'', ex_tag = ''natural-language-processing''\<rparr>"]
    by blast
  have "\<exists>s \<in> {''transformer'', ''llm'', ''bert''}.
          spec_contains_ci (ex_text \<lparr>ex_text = ''A new BERT model'', ex_tag = ''computer-vision''\<rparr>) s"
    using a by simp
  then have b: "\<not> spec_contains (ex_tag \<lparr>ex_text = ''A new BERT model'', ex_tag = ''computer-vision''\<rparr>)
             ''natural-language-processing''"
    using nlp_llm_iff[of "\<lparr>ex_text = ''A new BERT model'', ex_tag = ''computer-vision''\<rparr>"]
      vision_example by blast
  from a b show ?thesis by simp
qed

lemma split_from_length:
  assumes "isspace prev \<longleftrightarrow> cur = []"
  shows "length (split_from cur s) =
         (if cur = [] then 0 else 1)
         + length (filter (\<lambda>(prev, c). isspace prev \<and> \<not> isspace c) (zip (prev # s) s))"
  using assms
proof (induction s arbitrary: cur prev)
  case Nil
  show ?case by simp
next
  case (Cons c cs)
  show ?case
  proof (cases "isspace c")
    case True
    have "length (split_from [] cs) =
          length (filter (\<lambda>(prev, c). isspace prev \<and> \<not> isspace c) (zip (c # cs) cs))"
      using Cons.IH[of c "[]"] True by simp
    then show ?thesis using True by simp
  next
    case False
    have "length (split_from (cur @ [c]) cs) =
          1 + length (filter (\<lambda>(prev, c). isspace prev \<and> \<not> isspace c) (zip (c # cs) cs))"
      using Cons.IH[of c "cur @ [c]"] False by simp
    then show ?thesis using False Cons.prems by simp
  qed
qed

lemma str_split_length: "length (str_split s) = spec_num_tokens s"
proof -
  have "isspace CHR '' '' \<longleftrightarrow> ([] :: string) = []" by (simp add: isspace_def)
  from split_from_length[OF this, of s] show ?thesis
    by (simp add: str_split_def spec_num_tokens_def)
qed

lemma scenario_masks:
  "map short_text [\<lparr>ex_text = ''a b c'', ex_tag = g1\<rparr>,
                   \<lparr>ex_text = ''a b c d e f g h i'', ex_tag = g2\<rparr>] = [True, False]"
  "map nlp_llm [\<lparr>ex_text = ''a b c'', ex_tag = g1\<rparr>,
                \<lparr>ex_text = ''a b c d e f g h i'', ex_tag = g2\<rparr>] = [False, False]"
   apply (simp add: short_text_def str_split_def isspace_def)
  apply code_simp
  done


lemma scenario_tokens:
  "str_split ''a b c'' = [''a'', ''b'', ''c'']"
  "str_split ''a b c d e f g h i'' = [''a'', ''b'', ''c'', ''d'', ''e'', ''f'', ''g'', ''h'', ''i'']"
  by (simp_all add: str_split_def isspace_def)

lemma scenario_slices:
  "get_slice_metrics [t1, t2] [p1, p2]
     [\<lparr>ex_text = ''a b c'', ex_tag = g1\<rparr>, \<lparr>ex_text = ''a b c d e f g h i'', ex_tag = g2\<rparr>]
   = Inr [(''short_text'', spec_slice_record [t1, t2] [p1, p2] [True, False])]"
proof -
  have "get_slice_metrics [t1, t2] [p1, p2]
     [\<lparr>ex_text = ''a b c'', ex_tag = g1\<rparr>, \<lparr>ex_text = ''a b c d e f g h i'', ex_tag = g2\<rparr>]
     = slice_loop [t1, t2] [p1, p2]
         [(''nlp_llm'', [False, False]), (''short_text'', [True, False])] []"
    using scenario_masks[of g1 g2]
    by (simp add: get_slice_metrics_rows slice_columns_def slicing_functions_def)
  also have "\<dots> = slice_loop [t1, t2] [p1, p2] [(''short_text'', [True, False])] []"
    by (rule slice_skip) (simp add: sum_mask_def)
  also have "\<dots> = slice_loop [t1, t2] [p1, p2] []
                   (dict_set [] ''short_text'' (spec_slice_record [t1, t2] [p1, p2] [True, False]))"
    by (rule slice_step) (simp_all add: sum_mask_def)
  finally show ?thesis by simp
qed

text \<open>
  Claim C8. \<open>short_text\<close> is true exactly when the text, split on whitespace, has fewer
  than 8 tokens, where the number of tokens of the split is the number of places at which
  a token starts. On the texts "a b c" (3 tokens) and "a b c d e f g h i" (9 tokens) the
  mask is [true, false], and for any two truth and prediction values and any tags the
  output has the single entry "short\_text" with num\_samples 1.
\<close>

theorem short_text_tokens:
  "(short_text x \<longleftrightarrow> length (str_split (ex_text x)) < 8)
   \<and> length (str_split (ex_text x)) = spec_num_tokens (ex_text x)
   \<and> length (str_split ''a b c'') = 3
   \<and> length (str_split ''a b c d e f g h i'') = 9
   \<and> map short_text [\<lparr>ex_text = ''a b c'', ex_tag = g1\<rparr>,
                      \<lparr>ex_text = ''a b c d e f g h i'', ex_tag = g2\<rparr>] = [True, False]
   \<and> (\<exists>m. get_slice_metrics [t1, t2] [p1, p2]
              [\<lparr>ex_text = ''a b c'', ex_tag = g1\<rparr>,
               \<lparr>ex_text = ''a b c d e f g h i'', ex_tag = g2\<rparr>] = Inr [(''short_text'', m)]
          \<and> num_samples m = PyInt 1)"
proof -
  have "num_samples (spec_slice_record [t1, t2] [p1, p2] [True, False]) = PyInt 1"
    by (simp add: spec_slice_record_def sum_mask_def)
  then have slices: "\<exists>m. get_slice_metrics [t1, t2] [p1, p2]
              [\<lparr>ex_text = ''a b c'', ex_tag = g1\<rparr>,
               \<lparr>ex_text = ''a b c d e f g h i'', ex_tag = g2\<rparr>] = Inr [(''short_text'', m)]
          \<and> num_samples m = PyInt 1"
    by (simp add: scenario_slices)
  have def: "short_text x \<longleftrightarrow> length (str_split (ex_text x)) < 8"
    by (simp add: short_text_def)
  have lens: "length (str_split ''a b c'') = 3" "length (str_split ''a b c d e f g h i'') = 9"
    by (simp_all add: scenario_tokens)
  from def str_split_length[of "ex_text x"] lens scenario_masks(1)[of g1 g2] slices
  show ?thesis by blast
qed

theorem short_text_tokens_witness:
  "short_text \<lparr>ex_text = ''a b c'', ex_tag = ''mlops''\<rparr>
   \<and> spec_num_tokens ''a b c'' = 3
   \<and> \<not> short_text \<lparr>ex_text = ''a b c d e f g h i'', ex_tag = ''mlops''\<rparr>
   \<and> spec_num_tokens ''a b c d e f g h i'' = 9"
proof -
  note a = short_text_tokens[of "\<lparr>ex_text = ''a b c'', ex_tag = ''mlops''\<rparr>" "''mlops''" "''mlops''" 0 1 0 0]
  note b = short_text_tokens[of "\<lparr>ex_text = ''a b c d e f g h i'', ex_tag = ''mlops''\<rparr>" "''mlops''" "''mlops''" 0 1 0 0]
  have a1: "short_text \<lparr>ex_text = ''a b c'', ex_tag = ''mlops''\<rparr>"
    and a2: "spec_num_tokens ''a b c'' = 3"
    using a by simp_all
  have b1: "\<not> short_text \<lparr>ex_text = ''a b c d e f g h i'', ex_tag = ''mlops''\<rparr>"
    and b2: "spec_num_tokens ''a b c d e f g h i'' = 9"
    using b by simp_all
  from a1 a2 b1 b2 show ?thesis by simp
qed

end
